theory Spec2Isabelle
  imports Main "HOL-Library.Word"
begin

section \<open>Values of the scanner\<close>

text \<open>
  The scanner of \<^verbatim>\<open>scanner.py\<close> probes TCP ports of one host. Ports are Python
  integers, hosts are strings, the bytes read from a connection are octets and a banner is a
  Python \<^verbatim>\<open>str\<close>: a sequence of Unicode code points.
\<close>

type_synonym byte = "8 word"
type_synonym str = "nat list"
type_synonym host = string
type_synonym port = int

text \<open>
  The exceptions the code meets, with their messages where the library compares them.
  \<^verbatim>\<open>asyncio.TimeoutError\<close> is the built-in \<^verbatim>\<open>TimeoutError\<close>, which like
  \<^verbatim>\<open>ConnectionRefusedError\<close> is a subclass of \<^verbatim>\<open>OSError\<close>; \<open>OSError\<close>
  stands for an \<^verbatim>\<open>OSError\<close> of no more special class (a DNS failure, the combined
  error of a connection attempt); \<^verbatim>\<open>UnicodeDecodeError\<close> and
  \<^verbatim>\<open>RuntimeError\<close> are subclasses of \<^verbatim>\<open>Exception\<close> outside
  \<^verbatim>\<open>OSError\<close>, and \<open>OtherError\<close> stands for every other such subclass.
  \<^verbatim>\<open>asyncio.CancelledError\<close> derives from \<^verbatim>\<open>BaseException\<close> only, so
  \<^verbatim>\<open>except Exception\<close> does not catch it.
\<close>

datatype exn = TimeoutError | ConnectionRefusedError string | OSError string
  | UnicodeDecodeError | RuntimeError | OtherError string | CancelledError

fun is_Exception :: "exn \<Rightarrow> bool" where
  "is_Exception CancelledError = False"
| "is_Exception _ = True"

fun is_ConnectionRefusedError :: "exn \<Rightarrow> bool" where
  "is_ConnectionRefusedError (ConnectionRefusedError m) = True"
| "is_ConnectionRefusedError _ = False"

fun is_OSError :: "exn \<Rightarrow> bool" where
  "is_OSError TimeoutError = True"
| "is_OSError (ConnectionRefusedError m) = True"
| "is_OSError (OSError m) = True"
| "is_OSError _ = False"

text \<open>
  \<^verbatim>\<open>str(exc)\<close>, for the exceptions whose message the model carries; the library
  compares the messages of \<^verbatim>\<open>OSError\<close>s only.
\<close>

fun message :: "exn \<Rightarrow> string" where
  "message (ConnectionRefusedError m) = m"
| "message (OSError m) = m"
| "message (OtherError m) = m"
| "message _ = []"

text \<open>
  What awaiting an operation of the outside world gives: it returns a value after some
  milliseconds, raises after some milliseconds, or never completes.
\<close>

datatype 'a awaited = Returns nat 'a | Raises nat exn | Pending

text \<open>
  An established connection, as \<^verbatim>\<open>asyncio.open_connection\<close> hands it over: the
  \<open>reader\<close> is what awaiting the first read gives (the bytes the remote side has sent by
  then, none at end of stream), the \<open>writer\<close> is what awaiting
  \<^verbatim>\<open>writer.wait_closed()\<close> gives. The network maps a host and a port to what the
  connection attempt gives: the behaviour of the target, fixed during one scan.
\<close>

record connection =
  reader :: "byte list awaited"
  writer :: "unit awaited"

type_synonym network = "host \<Rightarrow> port \<Rightarrow> connection awaited"

text \<open>
  How the library arrives at what a connection attempt gives
  (\<^verbatim>\<open>BaseEventLoop.create_connection\<close>, behind \<^verbatim>\<open>asyncio.open_connection\<close>): the
  addresses the host name resolves to are tried one after the other; the first that accepts
  gives the connection; an \<^verbatim>\<open>OSError\<close> of an address is kept and the next address is
  tried, any other exception is raised at once. When no address accepted, a single
  exception is raised as it is, several exceptions with one and the same message give the
  first of them, and several exceptions with different messages give a plain
  \<^verbatim>\<open>OSError\<close> that lists them. The arguments are the milliseconds spent so far, the
  exceptions kept so far and what each remaining address answers.
\<close>

fun join :: "string \<Rightarrow> string list \<Rightarrow> string" where
  "join sep [] = []"
| "join sep [x] = x"
| "join sep (x # y # ys) = x @ sep @ join sep (y # ys)"

fun create_connection :: "nat \<Rightarrow> exn list \<Rightarrow> connection awaited list \<Rightarrow> connection awaited" where
  "create_connection t exceptions [] =
     (case exceptions of
        [] \<Rightarrow> Raises t (OSError ''getaddrinfo() returned empty list'')
      | [e] \<Rightarrow> Raises t e
      | e # _ \<Rightarrow>
          if list_all (\<lambda>exc. message exc = message e) exceptions
          then Raises t e
          else Raises t (OSError (''Multiple exceptions: '' @ join '', '' (map message exceptions))))"
| "create_connection t exceptions (Returns d c # infos) = Returns (t + d) c"
| "create_connection t exceptions (Raises d e # infos) =
     (if is_OSError e then create_connection (t + d) (exceptions @ [e]) infos
      else Raises (t + d) e)"
| "create_connection t exceptions (Pending # infos) = Pending"

subsection \<open>Log entries and events\<close>

text \<open>
  One constructor for each of the three logging calls of \<^verbatim>\<open>scan_port\<close>, with the
  values its message is formatted from.
\<close>

datatype log_entry =
    TimeoutWarning port host
  | RefusedWarning port host
  | UnexpectedError port host exn

datatype level = WARNING | ERROR

fun level_of :: "log_entry \<Rightarrow> level" where
  "level_of (TimeoutWarning p h) = WARNING"
| "level_of (RefusedWarning p h) = WARNING"
| "level_of (UnexpectedError p h e) = ERROR"

text \<open>The observable steps of one probe, in program order.\<close>

datatype event =
    Acquire
  | OpenConnection host port
  | Read nat
  | Close
  | WaitClosed
  | Sleep nat
  | Log log_entry
  | Release

subsection \<open>Coroutines\<close>

text \<open>
  Running a coroutine gives the events it performed, the milliseconds it spent awaiting,
  and how it ended: with a value, with an exception, or suspended for ever.
\<close>

datatype 'a outcome = Ret 'a | Exc exn | Hang

datatype 'a task = Task (trace: "event list") (elapsed: nat) (outcome: "'a outcome")

definition await :: "event \<Rightarrow> 'a awaited \<Rightarrow> 'a task" where
  "await ev a = (case a of
       Returns t v \<Rightarrow> Task [ev] t (Ret v)
     | Raises t e \<Rightarrow> Task [ev] t (Exc e)
     | Pending \<Rightarrow> Task [ev] 0 Hang)"

definition call :: "event \<Rightarrow> unit task" where
  "call ev = Task [ev] 0 (Ret ())"

definition return :: "'a \<Rightarrow> 'a task" where
  "return v = Task [] 0 (Ret v)"

definition raise :: "exn \<Rightarrow> 'a task" where
  "raise e = Task [] 0 (Exc e)"

fun and_then :: "'a task \<Rightarrow> ('a \<Rightarrow> 'b task) \<Rightarrow> 'b task" where
  "and_then (Task tr t (Ret v)) f = Task (tr @ trace (f v)) (t + elapsed (f v)) (outcome (f v))"
| "and_then (Task tr t (Exc e)) f = Task tr t (Exc e)"
| "and_then (Task tr t Hang) f = Task tr t Hang"

text \<open>
  \<^verbatim>\<open>asyncio.wait_for(aw, timeout)\<close>: the awaited operation's own result when it
  completes before the timeout, \<^verbatim>\<open>TimeoutError\<close> at the timeout otherwise, also for an
  operation that would never complete. Nothing below depends on which of the two happens
  when the operation completes exactly at the timeout.
\<close>

fun wait_for :: "'a awaited \<Rightarrow> nat \<Rightarrow> 'a awaited" where
  "wait_for (Returns t v) timeout = (if t < timeout then Returns t v else Raises timeout TimeoutError)"
| "wait_for (Raises t e) timeout = (if t < timeout then Raises t e else Raises timeout TimeoutError)"
| "wait_for Pending timeout = Raises timeout TimeoutError"

text \<open>\<^verbatim>\<open>reader.read(n)\<close>: one read, of at most \<open>n\<close> bytes.\<close>

fun read :: "byte list awaited \<Rightarrow> nat \<Rightarrow> byte list awaited" where
  "read (Returns t bs) n = Returns t (take n bs)"
| "read (Raises t e) n = Raises t e"
| "read Pending n = Pending"

subsection \<open>Decoding and stripping\<close>

text \<open>
  \<^verbatim>\<open>bytes.decode()\<close> is strict UTF-8: \<open>None\<close> stands for
  \<^verbatim>\<open>UnicodeDecodeError\<close>. Overlong forms, surrogates and code points above
  U+10FFFF are rejected, as CPython rejects them.
\<close>

definition cont :: "nat \<Rightarrow> bool" where
  "cont b = (128 \<le> b \<and> b \<le> 191)"

fun utf8 :: "nat list \<Rightarrow> nat list option" where
  "utf8 [] = Some []"
| "utf8 (b0 # bs) =
    (if b0 < 128 then map_option ((#) b0) (utf8 bs)
     else if 194 \<le> b0 \<and> b0 \<le> 223 then
       (case bs of
          b1 # r \<Rightarrow>
            if cont b1
            then map_option ((#) ((b0 - 192) * 64 + (b1 - 128))) (utf8 r)
            else None
        | _ \<Rightarrow> None)
     else if 224 \<le> b0 \<and> b0 \<le> 239 then
       (case bs of
          b1 # b2 # r \<Rightarrow>
            if cont b1 \<and> cont b2 \<and> (b0 = 224 \<longrightarrow> 160 \<le> b1) \<and> (b0 = 237 \<longrightarrow> b1 \<le> 159)
            then map_option ((#) ((b0 - 224) * 4096 + (b1 - 128) * 64 + (b2 - 128))) (utf8 r)
            else None
        | _ \<Rightarrow> None)
     else if 240 \<le> b0 \<and> b0 \<le> 244 then
       (case bs of
          b1 # b2 # b3 # r \<Rightarrow>
            if cont b1 \<and> cont b2 \<and> cont b3 \<and> (b0 = 240 \<longrightarrow> 144 \<le> b1) \<and> (b0 = 244 \<longrightarrow> b1 \<le> 143)
            then map_option
                   ((#) ((b0 - 240) * 262144 + (b1 - 128) * 4096 + (b2 - 128) * 64 + (b3 - 128)))
                   (utf8 r)
            else None
        | _ \<Rightarrow> None)
     else None)"

definition decode :: "byte list \<Rightarrow> str option" where
  "decode bs = utf8 (map unat bs)"

text \<open>
  \<^verbatim>\<open>str.strip()\<close> removes the leading and trailing characters for which
  \<^verbatim>\<open>str.isspace\<close> holds.
\<close>

definition isspace :: "nat \<Rightarrow> bool" where
  "isspace c = ((9 \<le> c \<and> c \<le> 13) \<or> (28 \<le> c \<and> c \<le> 32) \<or> c = 133 \<or> c = 160
     \<or> c = 5760 \<or> (8192 \<le> c \<and> c \<le> 8202) \<or> c = 8232 \<or> c = 8233 \<or> c = 8239
     \<or> c = 8287 \<or> c = 12288)"

definition strip :: "str \<Rightarrow> str" where
  "strip s = rev (dropWhile isspace (rev (dropWhile isspace s)))"

section \<open>The banner reader\<close>

text \<open>
  \<^verbatim>\<open>fetch_service_banner(reader)\<close>: one \<^verbatim>\<open>reader.read(1024)\<close>, decoded and
  stripped; \<^verbatim>\<open>except asyncio.CancelledError: return None\<close> around both.
\<close>

fun except_CancelledError :: "str option task \<Rightarrow> str option task" where
  "except_CancelledError (Task tr t (Exc e)) =
     (if e = CancelledError then Task tr t (Ret None) else Task tr t (Exc e))"
| "except_CancelledError (Task tr t r) = Task tr t r"

definition fetch_service_banner :: "byte list awaited \<Rightarrow> str option task" where
  "fetch_service_banner rd =
     except_CancelledError
       (and_then (await (Read 1024) (read rd 1024)) (\<lambda>banner.
          case decode banner of
            None \<Rightarrow> raise UnicodeDecodeError
          | Some s \<Rightarrow> return (Some (strip s))))"

section \<open>The port prober\<close>

definition MAX_CONCURRENT_SCANS :: nat where
  "MAX_CONCURRENT_SCANS = 100"

text \<open>
  The body of the \<^verbatim>\<open>try\<close> block of \<^verbatim>\<open>scan_port\<close>. The timeout of one second
  is 1000 milliseconds and the delay of a tenth of a second is 100.
\<close>

definition scan_port_try :: "network \<Rightarrow> host \<Rightarrow> port \<Rightarrow> (port \<times> str option) task" where
  "scan_port_try net target_host target_port =
     and_then (await (OpenConnection target_host target_port)
                 (wait_for (net target_host target_port) 1000)) (\<lambda>c.
     and_then (fetch_service_banner (reader c)) (\<lambda>service_info.
     and_then (call Close) (\<lambda>_.
     and_then (await WaitClosed (writer c)) (\<lambda>_.
     and_then (await (Sleep 100) (Returns 100 ())) (\<lambda>_.
     return (target_port, service_info))))))"

text \<open>The three \<^verbatim>\<open>except\<close> clauses, in the order of the source.\<close>

fun scan_port_except :: "host \<Rightarrow> port \<Rightarrow> (port \<times> str option) task \<Rightarrow> (port \<times> str option) task" where
  "scan_port_except target_host target_port (Task tr t (Exc e)) =
     (if e = TimeoutError
      then Task (tr @ [Log (TimeoutWarning target_port target_host)]) t (Ret (target_port, None))
      else if is_ConnectionRefusedError e
      then Task (tr @ [Log (RefusedWarning target_port target_host)]) t (Ret (target_port, None))
      else if is_Exception e
      then Task (tr @ [Log (UnexpectedError target_port target_host e)]) t (Ret (target_port, None))
      else Task tr t (Exc e))"
| "scan_port_except target_host target_port (Task tr t r) = Task tr t r"

text \<open>
  \<^verbatim>\<open>async with semaphore\<close> first awaits \<^verbatim>\<open>semaphore.acquire()\<close>, outside the
  \<^verbatim>\<open>try\<close> block: the permit is granted, at once or after a wait, or the acquisition
  raises, or the wait never ends. With the permit granted, the block runs and the permit
  is released when the block is left, by a return or by an exception; a block that never
  ends never releases. When the acquisition raises, the block is not entered, nothing is
  released and the exception leaves \<^verbatim>\<open>scan_port\<close>. How long the probe waits for its
  permit depends on the other probes and is not counted in the time it spends.
\<close>

datatype acquired = Granted | Raised exn | Never

fun with_semaphore :: "acquired \<Rightarrow> 'a task \<Rightarrow> 'a task" where
  "with_semaphore Granted (Task tr t Hang) = Task (Acquire # tr) t Hang"
| "with_semaphore Granted (Task tr t r) = Task (Acquire # tr @ [Release]) t r"
| "with_semaphore (Raised e) m = Task [] 0 (Exc e)"
| "with_semaphore Never m = Task [] 0 Hang"

definition scan_port :: "acquired \<Rightarrow> network \<Rightarrow> host \<Rightarrow> port \<Rightarrow> (port \<times> str option) task" where
  "scan_port permit net target_host target_port =
     with_semaphore permit
       (scan_port_except target_host target_port (scan_port_try net target_host target_port))"

section \<open>The shared semaphore\<close>

text \<open>
  \<^verbatim>\<open>semaphore = asyncio.Semaphore(MAX_CONCURRENT_SCANS)\<close> is created once, when the
  module is loaded, and shared by every scan of the process. It is a counter of free
  permits (\<^verbatim>\<open>_value\<close>) and, from the first time an acquisition has to wait, the event
  loop it is bound to (\<^verbatim>\<open>_loop\<close>), as in the \<^verbatim>\<open>asyncio\<close> of Python 3.10 and
  later. Event loops are numbered: each \<^verbatim>\<open>asyncio.run\<close> runs its coroutine in a new
  one.
\<close>

type_synonym event_loop = nat

record asyncio_semaphore =
  sem_value :: nat
  sem_loop :: "event_loop option"

definition semaphore :: asyncio_semaphore where
  "semaphore = \<lparr>sem_value = MAX_CONCURRENT_SCANS, sem_loop = None\<rparr>"

text \<open>
  \<^verbatim>\<open>_LoopBoundMixin._get_loop\<close>: binds the semaphore to the running loop when it is not
  bound yet, and raises \<^verbatim>\<open>RuntimeError\<close> when it is bound to another loop.
\<close>

definition get_loop :: "asyncio_semaphore \<Rightarrow> event_loop \<Rightarrow> exn + asyncio_semaphore" where
  "get_loop s running =
     (case sem_loop s of
        None \<Rightarrow> Inr (s\<lparr>sem_loop := Some running\<rparr>)
      | Some l \<Rightarrow> if l = running then Inr s else Inl RuntimeError)"

text \<open>
  The first step of \<^verbatim>\<open>Semaphore.acquire\<close>: with a free permit it takes one and returns;
  otherwise it asks for the loop, which may raise, and queues up for a permit. (The library
  also makes an acquisition wait while others are queued; in a scan the counter is zero
  whenever a probe is queued, since every probe attempts its acquisition when the tasks are
  started, before any release.)
\<close>

datatype attempt = Taken | Queued | Failed exn

definition acquire :: "asyncio_semaphore \<Rightarrow> event_loop \<Rightarrow> attempt \<times> asyncio_semaphore" where
  "acquire s running =
     (if sem_value s \<noteq> 0 then (Taken, s\<lparr>sem_value := sem_value s - 1\<rparr>)
      else case get_loop s running of
             Inl e \<Rightarrow> (Failed e, s)
           | Inr s' \<Rightarrow> (Queued, s'))"

section \<open>The scan orchestrator\<close>

text \<open>
  \<^verbatim>\<open>asyncio.gather\<close>: the list of results in the order of the tasks when all of them
  return; an exception of a task is raised to the caller at once, whatever the other tasks
  do; otherwise some task never completes and neither does the gathering. Of several
  exceptions the caller gets the one raised first; the model takes the first in the order of
  the tasks, which makes no difference here: the acquisitions that fail are dealt with
  before the gathering (see \<open>scan_ports\<close> below), and \<^verbatim>\<open>CancelledError\<close> is the only
  exception that leaves a probe whose permit is granted.
\<close>

fun gather :: "'a outcome list \<Rightarrow> 'a list outcome" where
  "gather [] = Ret []"
| "gather (Exc e # rs) = Exc e"
| "gather (Ret v # rs) =
     (case gather rs of Ret vs \<Rightarrow> Ret (v # vs) | Exc e \<Rightarrow> Exc e | Hang \<Rightarrow> Hang)"
| "gather (Hang # rs) =
     (case gather rs of Ret vs \<Rightarrow> Hang | Exc e \<Rightarrow> Exc e | Hang \<Rightarrow> Hang)"

text \<open>
  The dictionary comprehension \<^verbatim>\<open>{port: info for port, info in results if info is not None}\<close>:
  a later pair of the same port replaces an earlier one.
\<close>

definition open_ports_of :: "(port \<times> str option) list \<Rightarrow> (port \<rightharpoonup> str)" where
  "open_ports_of results =
     foldl (\<lambda>d (port, info). case info of None \<Rightarrow> d | Some s \<Rightarrow> d(port \<mapsto> s)) Map.empty results"

text \<open>
  Starting the tasks: the event loop runs the tasks in the order in which
  \<^verbatim>\<open>gather\<close> created them, each up to its first suspension, so the probes attempt
  their acquisitions in the order of the ports, before any connection attempt completes.
\<close>

fun launch :: "asyncio_semaphore \<Rightarrow> event_loop \<Rightarrow> port list \<Rightarrow> (port \<times> attempt) list \<times> asyncio_semaphore" where
  "launch s running [] = ([], s)"
| "launch s running (p # ps) =
     (case acquire s running of
        (a, s') \<Rightarrow> (case launch s' running ps of (as, s'') \<Rightarrow> ((p, a) # as, s'')))"

text \<open>
  The probes then run. A queued probe gets the permit that an earlier probe releases, in
  the order of the queue; a probe that never ends never releases its permit, so a queued
  probe gets one as long as fewer probes before it are stuck than the semaphore had
  permits. \<open>free\<close> counts the permits not held for ever.
\<close>

fun settle :: "nat \<Rightarrow> network \<Rightarrow> host \<Rightarrow> (port \<times> attempt) list \<Rightarrow> (port \<times> str option) task list" where
  "settle free net target_host [] = []"
| "settle free net target_host ((port, a) # rest) =
     (let permit = (case a of
                      Taken \<Rightarrow> Granted
                    | Queued \<Rightarrow> if 0 < free then Granted else Never
                    | Failed e \<Rightarrow> Raised e);
          task = scan_port permit net target_host port
      in task # settle (if permit = Granted \<and> outcome task = Hang then free - 1 else free)
                  net target_host rest)"

text \<open>The exceptions of the acquisitions that failed while the tasks were started.\<close>

fun failures :: "(port \<times> attempt) list \<Rightarrow> exn list" where
  "failures [] = []"
| "failures ((port, Failed e) # rest) = e # failures rest"
| "failures ((port, a) # rest) = failures rest"

text \<open>
  \<^verbatim>\<open>scan_ports\<close>, run in the event loop \<open>running\<close> with the semaphore in the state
  \<open>s\<close>: what it returns or raises, and the state of the semaphore afterwards. An
  acquisition that fails does so while the tasks are started, before any connection attempt
  completes, so \<^verbatim>\<open>gather\<close> raises its exception. Once the scan is over every permit
  has been given back; of a scan that never ends the state afterwards means nothing.
\<close>

definition scan_ports ::
  "asyncio_semaphore \<Rightarrow> event_loop \<Rightarrow> network \<Rightarrow> host \<Rightarrow> port list
     \<Rightarrow> (port \<rightharpoonup> str) outcome \<times> asyncio_semaphore" where
  "scan_ports s running net target_host ports_to_scan =
     (case launch s running ports_to_scan of
        (attempts, s') \<Rightarrow>
          (case failures attempts of
             e # _ \<Rightarrow> Exc e
           | [] \<Rightarrow>
               (let scan_tasks = settle (sem_value s) net target_host attempts
                in case gather (map outcome scan_tasks) of
                     Ret results \<Rightarrow> Ret (open_ports_of results)
                   | Exc e \<Rightarrow> Exc e
                   | Hang \<Rightarrow> Hang),
           s'\<lparr>sem_value := sem_value s\<rparr>))"

section \<open>The event loop\<close>

text \<open>
  The event loop runs the probes of one scan interleaved: each probe has performed a prefix
  of its events and is suspended before the rest; resuming a probe lets it perform its next
  event. A probe whose next event is \<open>Acquire\<close> attempts the acquisition: it takes a
  permit, or stays queued where it is, or fails and ends without having done anything.
\<close>

datatype running = Running (performed: "event list") (remaining: "event list")

datatype loop = Loop (sem: asyncio_semaphore) (current: event_loop) (probes: "running list")

definition permits :: "loop \<Rightarrow> nat" where
  "permits l = sem_value (sem l)"

fun resume :: "loop \<Rightarrow> nat \<Rightarrow> loop option" where
  "resume (Loop s running rs) i =
     (if length rs \<le> i then None
      else case rs ! i of
             Running es [] \<Rightarrow> None
           | Running es (ev # evs) \<Rightarrow>
               if ev = Acquire
               then (case acquire s running of
                       (Taken, s') \<Rightarrow> Some (Loop s' running (rs[i := Running (es @ [ev]) evs]))
                     | (Queued, s') \<Rightarrow> Some (Loop s' running rs)
                     | (Failed e, s') \<Rightarrow> Some (Loop s' running (rs[i := Running es []])))
               else if ev = Release
               then Some (Loop (s\<lparr>sem_value := sem_value s + 1\<rparr>) running
                            (rs[i := Running (es @ [ev]) evs]))
               else Some (Loop s running (rs[i := Running (es @ [ev]) evs])))"

fun run :: "loop \<Rightarrow> nat list \<Rightarrow> loop option" where
  "run l [] = Some l"
| "run l (i # schedule) = (case resume l i of None \<Rightarrow> None | Some l' \<Rightarrow> run l' schedule)"

text \<open>
  \<^verbatim>\<open>scan_ports\<close> creates one \<^verbatim>\<open>scan_port\<close> coroutine for each port, none of
  them started. The events of each are those of the probe once its permit is granted; the
  loop decides whether and when it is.
\<close>

definition start :: "asyncio_semaphore \<Rightarrow> event_loop \<Rightarrow> network \<Rightarrow> host \<Rightarrow> port list \<Rightarrow> loop" where
  "start s running net target_host ports_to_scan =
     Loop s running
       (map (\<lambda>port. Running [] (trace (scan_port Granted net target_host port))) ports_to_scan)"

text \<open>
  The shape of the events of one probe: the permit is acquired first, and only first, and
  is released last, if at all.
\<close>

fun guarded :: "event list \<Rightarrow> bool" where
  "guarded [] = False"
| "guarded (e # es) = (e = Acquire \<and> Acquire \<notin> set es \<and> Release \<notin> set (butlast es))"

text \<open>
  A probe holds a permit from its \<open>Acquire\<close> to its \<open>Release\<close>; its connection attempt is
  active while the attempt is the last thing it did.
\<close>

definition holds_permit :: "running \<Rightarrow> bool" where
  "holds_permit r = (Acquire \<in> set (performed r) \<and> Release \<notin> set (performed r))"

fun is_OpenConnection :: "event \<Rightarrow> bool" where
  "is_OpenConnection (OpenConnection h p) = True"
| "is_OpenConnection _ = False"

definition connecting :: "running \<Rightarrow> bool" where
  "connecting r = (performed r \<noteq> [] \<and> is_OpenConnection (last (performed r)))"

text \<open>
  What every state of the event loop satisfies when the semaphore started with \<open>c\<close>
  permits: each probe's events have the guarded shape, or the probe ended in a failed
  acquisition without an event, and the permits held and the permits free add up to \<open>c\<close>.
\<close>

definition balanced :: "nat \<Rightarrow> loop \<Rightarrow> bool" where
  "balanced c l = ((\<forall>r\<in>set (probes l).
        guarded (performed r @ remaining r) \<or> (performed r = [] \<and> remaining r = []))
     \<and> length (filter holds_permit (probes l)) + permits l = c)"

section \<open>Targets\<close>

text \<open>
  What a result of \<^verbatim>\<open>scan_port\<close> contributes to the dictionary of
  \<^verbatim>\<open>scan_ports\<close>.
\<close>

fun banner_of :: "(port \<times> str option) outcome \<Rightarrow> str option" where
  "banner_of (Ret v) = snd v"
| "banner_of (Exc e) = None"
| "banner_of Hang = None"

text \<open>
  A host to try the scanner on. Port 9999 has a listener that greets with
  \<^verbatim>\<open>"ready\n"\<close>; port 22 refuses; port 7 accepts and closes at once; port 80 accepts
  and waits for a request without sending anything; port 23 greets with the Telnet
  negotiation bytes \<^verbatim>\<open>FF FD 18\<close>; port 25 greets with \<^verbatim>\<open>"220\r\n"\<close> after five
  seconds; on port 8080 the read is cancelled; every other port is filtered and never
  answers.
\<close>

definition lab :: network where
  "lab h p =
     (if p = 9999 then
        Returns 2 \<lparr>reader = Returns 3 [114, 101, 97, 100, 121, 10], writer = Returns 1 ()\<rparr>
      else if p = 22 then
        Raises 1 (ConnectionRefusedError ''[Errno 111] Connect call failed (127.0.0.1, 22)'')
      else if p = 7 then Returns 2 \<lparr>reader = Returns 4 [], writer = Returns 1 ()\<rparr>
      else if p = 80 then Returns 2 \<lparr>reader = Pending, writer = Returns 1 ()\<rparr>
      else if p = 23 then Returns 2 \<lparr>reader = Returns 3 [255, 253, 24], writer = Returns 1 ()\<rparr>
      else if p = 25 then
        Returns 20 \<lparr>reader = Returns 5000 [50, 50, 48, 13, 10], writer = Returns 1 ()\<rparr>
      else if p = 8080 then
        Returns 2 \<lparr>reader = Raises 7 CancelledError, writer = Returns 1 ()\<rparr>
      else Pending)"

text \<open>
  A host name that resolves to two addresses, as \<^verbatim>\<open>localhost\<close> does to
  \<^verbatim>\<open>::1\<close> and \<^verbatim>\<open>127.0.0.1\<close>, with nothing listening on port 22: both addresses
  refuse. Every other port is filtered.
\<close>

definition dual :: network where
  "dual h p =
     (if p = 22 then
        create_connection 0 []
          [Raises 1 (ConnectionRefusedError ''[Errno 111] Connect call failed (::1, 22, 0, 0)''),
           Raises 1 (ConnectionRefusedError ''[Errno 111] Connect call failed (127.0.0.1, 22)'')]
      else Pending)"

text \<open>The ports 1000 to 1100, one more than the semaphore has permits.\<close>

definition many_ports :: "port list" where
  "many_ports = map int [1000..<1101]"

section \<open>Selectors of the coroutine combinators\<close>

lemma outcome_and_then:
  "outcome (and_then m f) = (case outcome m of Ret v \<Rightarrow> outcome (f v) | Exc e \<Rightarrow> Exc e | Hang \<Rightarrow> Hang)"
  by (cases "(m, f)" rule: and_then.cases) simp_all

lemma trace_and_then:
  "trace (and_then m f) = (case outcome m of Ret v \<Rightarrow> trace m @ trace (f v) | Exc e \<Rightarrow> trace m | Hang \<Rightarrow> trace m)"
  by (cases "(m, f)" rule: and_then.cases) simp_all

lemma elapsed_and_then:
  "elapsed (and_then m f) =
     (case outcome m of Ret v \<Rightarrow> elapsed m + elapsed (f v) | Exc e \<Rightarrow> elapsed m | Hang \<Rightarrow> elapsed m)"
  by (cases "(m, f)" rule: and_then.cases) simp_all

lemma outcome_await:
  "outcome (await ev a) = (case a of Returns t v \<Rightarrow> Ret v | Raises t e \<Rightarrow> Exc e | Pending \<Rightarrow> Hang)"
  by (simp add: await_def split: awaited.split)

lemma trace_await: "trace (await ev a) = [ev]"
  by (simp add: await_def split: awaited.split)

lemma outcome_with_semaphore: "outcome (with_semaphore Granted m) = outcome m"
  by (cases "(Granted, m)" rule: with_semaphore.cases) simp_all

lemma trace_with_semaphore:
  "trace (with_semaphore Granted m)
     = (if outcome m = Hang then Acquire # trace m else Acquire # trace m @ [Release])"
  by (cases "(Granted, m)" rule: with_semaphore.cases) simp_all

lemma elapsed_with_semaphore: "elapsed (with_semaphore Granted m) = elapsed m"
  by (cases "(Granted, m)" rule: with_semaphore.cases) simp_all

lemma scan_port_Raised: "scan_port (Raised e) net h p = Task [] 0 (Exc e)"
  by (simp add: scan_port_def)

lemma scan_port_Never: "scan_port Never net h p = Task [] 0 Hang"
  by (simp add: scan_port_def)

lemma is_ConnectionRefusedError_Exception: "is_ConnectionRefusedError e \<Longrightarrow> is_Exception e"
  by (cases e) simp_all

lemma is_ConnectionRefusedError_not_Timeout: "is_ConnectionRefusedError e \<Longrightarrow> e \<noteq> TimeoutError"
  by (cases e) simp_all

lemma outcome_except:
  "outcome (scan_port_except h p m) =
     (case outcome m of
        Exc e \<Rightarrow> if is_Exception e then Ret (p, None) else Exc e
      | Ret v \<Rightarrow> Ret v
      | Hang \<Rightarrow> Hang)"
  by (cases "(h, p, m)" rule: scan_port_except.cases)
     (auto dest: is_ConnectionRefusedError_Exception)

lemma trace_except:
  "trace (scan_port_except h p m) =
     (case outcome m of
        Exc e \<Rightarrow>
          if e = TimeoutError then trace m @ [Log (TimeoutWarning p h)]
          else if is_ConnectionRefusedError e then trace m @ [Log (RefusedWarning p h)]
          else if is_Exception e then trace m @ [Log (UnexpectedError p h e)]
          else trace m
      | Ret v \<Rightarrow> trace m
      | Hang \<Rightarrow> trace m)"
  by (cases "(h, p, m)" rule: scan_port_except.cases) auto

lemma elapsed_except: "elapsed (scan_port_except h p m) = elapsed m"
  by (cases "(h, p, m)" rule: scan_port_except.cases) auto

lemma outcome_fetch:
  "outcome (fetch_service_banner rd) =
     (case rd of
        Returns t bs \<Rightarrow>
          (case decode (take 1024 bs) of None \<Rightarrow> Exc UnicodeDecodeError | Some s \<Rightarrow> Ret (Some (strip s)))
      | Raises t e \<Rightarrow> if e = CancelledError then Ret None else Exc e
      | Pending \<Rightarrow> Hang)"
  by (simp add: fetch_service_banner_def await_def raise_def return_def split: awaited.split option.split)

lemma trace_fetch: "trace (fetch_service_banner rd) = [Read 1024]"
  by (simp add: fetch_service_banner_def await_def raise_def return_def split: awaited.split option.split)

lemma elapsed_fetch:
  "elapsed (fetch_service_banner rd) = (case rd of Returns t bs \<Rightarrow> t | Raises t e \<Rightarrow> t | Pending \<Rightarrow> 0)"
  by (simp add: fetch_service_banner_def await_def raise_def return_def split: awaited.split option.split)


lemma outcome_try:
  "outcome (scan_port_try net h p) =
     (case wait_for (net h p) 1000 of
        Raises t e \<Rightarrow> Exc e
      | Pending \<Rightarrow> Hang
      | Returns t c \<Rightarrow>
          (case outcome (fetch_service_banner (reader c)) of
             Exc e \<Rightarrow> Exc e
           | Hang \<Rightarrow> Hang
           | Ret service_info \<Rightarrow>
               (case writer c of
                  Returns t2 u \<Rightarrow> Ret (p, service_info)
                | Raises t2 e \<Rightarrow> Exc e
                | Pending \<Rightarrow> Hang)))"
  by (simp add: scan_port_try_def outcome_and_then outcome_await call_def return_def
      split: awaited.split outcome.split)

lemma trace_try:
  "trace (scan_port_try net h p) =
     (case wait_for (net h p) 1000 of
        Raises t e \<Rightarrow> [OpenConnection h p]
      | Pending \<Rightarrow> [OpenConnection h p]
      | Returns t c \<Rightarrow>
          (case outcome (fetch_service_banner (reader c)) of
             Exc e \<Rightarrow> [OpenConnection h p, Read 1024]
           | Hang \<Rightarrow> [OpenConnection h p, Read 1024]
           | Ret service_info \<Rightarrow>
               (case writer c of
                  Returns t2 u \<Rightarrow> [OpenConnection h p, Read 1024, Close, WaitClosed, Sleep 100]
                | Raises t2 e \<Rightarrow> [OpenConnection h p, Read 1024, Close, WaitClosed]
                | Pending \<Rightarrow> [OpenConnection h p, Read 1024, Close, WaitClosed])))"
  by (simp add: scan_port_try_def trace_and_then outcome_and_then outcome_await trace_await
      trace_fetch call_def return_def
      split: awaited.split outcome.split)

lemma scan_port_Exc: "outcome (scan_port Granted net h p) = Exc e \<Longrightarrow> e = CancelledError"
  by (cases e) (auto simp: scan_port_def outcome_with_semaphore outcome_except split: outcome.splits if_splits)

lemma scan_port_Ret: "outcome (scan_port Granted net h p) = Ret v \<Longrightarrow> fst v = p"
  by (auto simp: scan_port_def outcome_with_semaphore outcome_except outcome_try
      split: outcome.splits if_splits awaited.splits)

lemma scan_port_Ret_Granted: "outcome (scan_port permit net h p) = Ret v \<Longrightarrow> permit = Granted"
  by (cases permit) (simp_all add: scan_port_Raised scan_port_Never)

section \<open>What the orchestrator returns\<close>

lemma gather_Ret: "gather rs = Ret vs \<Longrightarrow> rs = map Ret vs"
  by (induction rs arbitrary: vs rule: gather.induct) (auto split: outcome.splits)

lemma gather_map_Ret: "gather (map Ret vs) = Ret vs"
  by (induction vs) simp_all

lemma gather_Exc: "gather rs = Exc e \<Longrightarrow> Exc e \<in> set rs"
  by (induction rs rule: gather.induct) (auto split: outcome.splits)

lemma gather_Exc_iff: "(\<exists>e. gather rs = Exc e) \<longleftrightarrow> (\<exists>e. Exc e \<in> set rs)"
  by (induction rs rule: gather.induct) (auto split: outcome.splits)

lemma gather_Ret_no_Exc: "gather rs = Ret vs \<Longrightarrow> Exc e \<notin> set rs"
  by (auto dest: gather_Ret)

lemma gather_Ret_no_Hang: "gather rs = Ret vs \<Longrightarrow> Hang \<notin> set rs"
  by (auto dest: gather_Ret)

lemma gather_Hang_iff: "gather rs = Hang \<longleftrightarrow> Hang \<in> set rs \<and> (\<forall>e. Exc e \<notin> set rs)"
  by (induction rs rule: gather.induct)
     (auto split: outcome.splits dest: gather_Ret_no_Exc gather_Ret_no_Hang gather_Exc)

lemma scan_port_outcome_collapse:
  "outcome (scan_port Granted net h q) = Ret v
   \<Longrightarrow> v = (q, banner_of (outcome (scan_port Granted net h q)))"
  using scan_port_Ret [of net h q v] by (cases v) simp

subsection \<open>Starting the tasks\<close>

lemma map_fst_launch: "map fst (fst (launch s l ps)) = ps"
  by (induction ps arbitrary: s) (simp_all add: split_beta)

lemma launch_within_permits:
  "length ps \<le> sem_value s \<Longrightarrow>
   launch s l ps = (map (\<lambda>p. (p, Taken)) ps, s\<lparr>sem_value := sem_value s - length ps\<rparr>)"
proof (induction ps arbitrary: s)
  case Nil
  then show ?case by simp
next
  case (Cons p ps)
  then have "length ps \<le> sem_value (s\<lparr>sem_value := sem_value s - 1\<rparr>)" by simp
  from Cons.IH [OF this] Cons.prems show ?case by (simp add: acquire_def)
qed

lemma launch_queued:
  assumes "sem_value s = 0" and "sem_loop s = Some l"
  shows "launch s l ps = (map (\<lambda>p. (p, Queued)) ps, s)"
  using assms by (induction ps) (simp_all add: acquire_def get_loop_def)

lemma launch_failed:
  assumes "sem_value s = 0" and "sem_loop s = Some l'" and "l' \<noteq> l"
  shows "launch s l ps = (map (\<lambda>p. (p, Failed RuntimeError)) ps, s)"
  using assms by (induction ps) (simp_all add: acquire_def get_loop_def)

lemma launch_append:
  "launch s l (ps @ qs) =
     (case launch s l ps of
        (as, s') \<Rightarrow> (case launch s' l qs of (bs, s'') \<Rightarrow> (as @ bs, s'')))"
  by (induction ps arbitrary: s) (simp_all add: split_beta)

text \<open>
  The attempts of a whole scan: the first probes take the free permits; the others are
  queued, binding the semaphore to the running loop, or fail when it is bound to another.
\<close>

lemma launch_beyond_permits:
  assumes "sem_value s < length ps"
  shows "launch s l ps =
     (case sem_loop s of
        None \<Rightarrow>
          (map (\<lambda>p. (p, Taken)) (take (sem_value s) ps)
             @ map (\<lambda>p. (p, Queued)) (drop (sem_value s) ps),
           \<lparr>sem_value = 0, sem_loop = Some l\<rparr>)
      | Some l' \<Rightarrow>
          if l' = l
          then (map (\<lambda>p. (p, Taken)) (take (sem_value s) ps)
                  @ map (\<lambda>p. (p, Queued)) (drop (sem_value s) ps),
                \<lparr>sem_value = 0, sem_loop = Some l\<rparr>)
          else (map (\<lambda>p. (p, Taken)) (take (sem_value s) ps)
                  @ map (\<lambda>p. (p, Failed RuntimeError)) (drop (sem_value s) ps),
                \<lparr>sem_value = 0, sem_loop = Some l'\<rparr>))"
proof -
  let ?v = "sem_value s"
  let ?s0 = "s\<lparr>sem_value := ?v - length (take ?v ps)\<rparr>"
  from assms have len: "length (take ?v ps) = ?v" by simp
  have first: "launch s l (take ?v ps) = (map (\<lambda>p. (p, Taken)) (take ?v ps), ?s0)"
    by (rule launch_within_permits) simp
  from assms obtain q qs where d: "drop ?v ps = q # qs" by (cases "drop ?v ps") auto
  have split: "launch s l ps = launch s l (take ?v ps @ drop ?v ps)" by simp
  have s0: "?s0 = \<lparr>sem_value = 0, sem_loop = sem_loop s\<rparr>" using len by simp
  show ?thesis
  proof (cases "sem_loop s")
    case None
    let ?s1 = "\<lparr>sem_value = 0, sem_loop = Some l\<rparr>"
    have "launch ?s0 l (q # qs) = ((q, Queued) # map (\<lambda>p. (p, Queued)) qs, ?s1)"
      using None s0 launch_queued [of ?s1 l qs] by (simp add: acquire_def get_loop_def)
    with None first d show ?thesis
      unfolding split launch_append by simp
  next
    case (Some l')
    show ?thesis
    proof (cases "l' = l")
      case True
      have "launch ?s0 l (drop ?v ps) = (map (\<lambda>p. (p, Queued)) (drop ?v ps), ?s0)"
        using Some True s0 by (intro launch_queued) simp_all
      with Some True first s0 show ?thesis
        unfolding split launch_append by simp
    next
      case False
      have "launch ?s0 l (drop ?v ps) = (map (\<lambda>p. (p, Failed RuntimeError)) (drop ?v ps), ?s0)"
        using Some False s0 by (intro launch_failed [where l' = l']) simp_all
      with Some False first s0 show ?thesis
        unfolding split launch_append by simp
    qed
  qed
qed

lemma failures_Taken: "failures (map (\<lambda>p. (p, Taken)) ps) = []"
  by (induction ps) simp_all

lemma failures_Queued: "failures (map (\<lambda>p. (p, Queued)) ps) = []"
  by (induction ps) simp_all

lemma failures_Failed: "failures (map (\<lambda>p. (p, Failed e)) ps) = map (\<lambda>p. e) ps"
  by (induction ps) simp_all

lemma failures_append: "failures (as @ bs) = failures as @ failures bs"
  by (induction as rule: failures.induct) simp_all

lemma failures_Nil_iff: "failures as = [] \<longleftrightarrow> (\<forall>p e. (p, Failed e) \<notin> set as)"
  by (induction as rule: failures.induct) auto

subsection \<open>Running the probes\<close>

lemma map_fst_settle_length: "length (settle free net h as) = length as"
  by (induction as arbitrary: free) (auto simp: Let_def)

lemma gather_settle:
  "gather (map outcome (settle free net h as)) = Ret results \<Longrightarrow>
   results = map (\<lambda>q. (q, banner_of (outcome (scan_port Granted net h q)))) (map fst as)"
proof (induction as arbitrary: free results)
  case Nil
  then show ?case by simp
next
  case (Cons pa as)
  obtain p a where pa: "pa = (p, a)" by (cases pa)
  define permit where "permit = (case a of Taken \<Rightarrow> Granted
      | Queued \<Rightarrow> if 0 < free then Granted else Never | Failed e \<Rightarrow> Raised e)"
  define free' where
    "free' = (if permit = Granted \<and> outcome (scan_port permit net h p) = Hang then free - 1 else free)"
  have unfold: "settle free net h (pa # as) = scan_port permit net h p # settle free' net h as"
    by (simp add: pa permit_def free'_def Let_def)
  show ?case
  proof (cases "outcome (scan_port permit net h p)")
    case (Ret v)
    then have g: "permit = Granted" by (rule scan_port_Ret_Granted)
    from Cons.prems Ret obtain vs where
      vs: "gather (map outcome (settle free' net h as)) = Ret vs" and r: "results = v # vs"
      unfolding unfold by (auto split: outcome.splits)
    from Ret g have "v = (p, banner_of (outcome (scan_port Granted net h p)))"
      using scan_port_outcome_collapse by simp
    with Cons.IH [OF vs] r pa show ?thesis by simp
  next
    case (Exc e)
    with Cons.prems show ?thesis unfolding unfold by simp
  next
    case Hang
    with Cons.prems show ?thesis unfolding unfold by (simp split: outcome.splits)
  qed
qed

lemma gather_settle_all_Ret:
  assumes "\<forall>q\<in>set (map fst as). \<exists>v. outcome (scan_port Granted net h q) = Ret v"
    and "failures as = []" and "0 < free"
  shows "\<exists>results. gather (map outcome (settle free net h as)) = Ret results"
  using assms
proof (induction as)
  case Nil
  then show ?case by simp
next
  case (Cons pa as)
  obtain p a where pa: "pa = (p, a)" by (cases pa)
  from Cons.prems(2) pa have a: "a = Taken \<or> a = Queued" and f: "failures as = []"
    by (cases a; simp)+
  from Cons.prems(1) pa obtain v where v: "outcome (scan_port Granted net h p) = Ret v" by auto
  from a Cons.prems(3) v have unfold:
    "settle free net h (pa # as) = scan_port Granted net h p # settle free net h as"
    by (auto simp: pa Let_def)
  from Cons.IH f Cons.prems(1,3) obtain vs where
    "gather (map outcome (settle free net h as)) = Ret vs" by auto
  with v show ?case unfolding unfold by simp
qed

subsection \<open>The result of a scan\<close>

lemma scan_ports_Ret_gather:
  assumes "fst (scan_ports s l net h ps) = Ret m"
  shows "\<exists>results free. gather (map outcome (settle free net h (fst (launch s l ps)))) = Ret results
     \<and> m = open_ports_of results"
  using assms
  by (auto simp: scan_ports_def Let_def split: prod.splits list.splits outcome.splits)

lemma foldl_open_ports:
  "foldl (\<lambda>d (port, info). case info of None \<Rightarrow> d | Some s \<Rightarrow> d(port \<mapsto> s)) d
      (map (\<lambda>q. (q, g q)) ps) q
   = (if q \<in> set ps \<and> g q \<noteq> None then g q else d q)"
  by (induction ps arbitrary: d) (auto split: option.splits)

lemma open_ports_of_map:
  "open_ports_of (map (\<lambda>q. (q, g q)) ps) q = (if q \<in> set ps then g q else None)"
  by (simp add: open_ports_of_def foldl_open_ports)

lemma scan_ports_lookup:
  assumes "fst (scan_ports s l net h ps) = Ret m"
  shows "m q = (if q \<in> set ps then banner_of (outcome (scan_port Granted net h q)) else None)"
proof -
  from scan_ports_Ret_gather [OF assms] obtain results free where
    g: "gather (map outcome (settle free net h (fst (launch s l ps)))) = Ret results"
    and m: "m = open_ports_of results" by blast
  from gather_settle [OF g] m show ?thesis
    by (simp add: map_fst_launch open_ports_of_map)
qed

lemma scan_ports_Ret_all:
  assumes "fst (scan_ports s l net h ps) = Ret m" and "q \<in> set ps"
  shows "\<exists>info. outcome (scan_port Granted net h q) = Ret (q, info)"
proof -
  from scan_ports_Ret_gather [OF assms(1)] obtain results free where
    g: "gather (map outcome (settle free net h (fst (launch s l ps)))) = Ret results" by blast
  have "\<forall>q\<in>set (map fst as). \<exists>info. outcome (scan_port Granted net h q) = Ret (q, info)"
    if "gather (map outcome (settle free net h as)) = Ret results" for as free results
    using that
  proof (induction as arbitrary: free results)
    case Nil
    then show ?case by simp
  next
    case (Cons pa as)
    obtain p a where pa: "pa = (p, a)" by (cases pa)
    define permit where "permit = (case a of Taken \<Rightarrow> Granted
        | Queued \<Rightarrow> if 0 < free then Granted else Never | Failed e \<Rightarrow> Raised e)"
    define free' where
      "free' = (if permit = Granted \<and> outcome (scan_port permit net h p) = Hang then free - 1 else free)"
    have unfold: "settle free net h (pa # as) = scan_port permit net h p # settle free' net h as"
      by (simp add: pa permit_def free'_def Let_def)
    from Cons.prems obtain v vs where v: "outcome (scan_port permit net h p) = Ret v"
      and vs: "gather (map outcome (settle free' net h as)) = Ret vs"
      unfolding unfold by (cases "outcome (scan_port permit net h p)") (auto split: outcome.splits)
    from v have "permit = Granted" by (rule scan_port_Ret_Granted)
    with v have "outcome (scan_port Granted net h p) = Ret (p, banner_of (outcome (scan_port Granted net h p)))"
      using scan_port_outcome_collapse [of net h p v] by simp
    with Cons.IH [OF vs] pa show ?case by auto
  qed
  from this [OF g] assms(2) show ?thesis by (simp add: map_fst_launch)
qed

text \<open>
  A scan returns when every probe returns once its permit is granted, the semaphore has a
  permit at all, and no acquisition fails: the ports are no more than the permits, or the
  semaphore is not bound to another loop.
\<close>

lemma launch_no_failures:
  assumes "length ps \<le> sem_value s \<or> sem_loop s = None \<or> sem_loop s = Some l"
  shows "failures (fst (launch s l ps)) = []"
proof (cases "length ps \<le> sem_value s")
  case True
  then show ?thesis by (simp add: launch_within_permits failures_Taken)
next
  case False
  then have "sem_value s < length ps" by simp
  from launch_beyond_permits [OF this, of l] assms False show ?thesis
    by (auto simp: failures_append failures_Taken failures_Queued split: option.splits)
qed

lemma scan_ports_all_Ret:
  assumes "\<forall>q\<in>set ps. \<exists>v. outcome (scan_port Granted net h q) = Ret v"
    and "0 < sem_value s"
    and "length ps \<le> sem_value s \<or> sem_loop s = None \<or> sem_loop s = Some l"
  shows "\<exists>m. fst (scan_ports s l net h ps) = Ret m"
proof -
  have f: "failures (fst (launch s l ps)) = []" using assms(3) by (rule launch_no_failures)
  from assms(1) have "\<forall>q\<in>set (map fst (fst (launch s l ps))).
      \<exists>v. outcome (scan_port Granted net h q) = Ret v"
    by (simp add: map_fst_launch)
  from gather_settle_all_Ret [OF this f assms(2)] obtain results where
    "gather (map outcome (settle (sem_value s) net h (fst (launch s l ps)))) = Ret results" by blast
  with f show ?thesis
    by (auto simp: scan_ports_def Let_def split: prod.splits)
qed

text \<open>
  A scan of more ports than the semaphore has permits, in another loop than the one the
  semaphore is bound to, raises \<^verbatim>\<open>RuntimeError\<close>.
\<close>

lemma scan_ports_other_loop:
  assumes "sem_value s < length ps" and "sem_loop s = Some l'" and "l' \<noteq> l"
  shows "fst (scan_ports s l net h ps) = Exc RuntimeError"
proof -
  from assms(1) obtain q qs where d: "drop (sem_value s) ps = q # qs"
    by (cases "drop (sem_value s) ps") auto
  from launch_beyond_permits [OF assms(1), of l] assms(2,3) d
  have "failures (fst (launch s l ps)) = RuntimeError # map (\<lambda>p. RuntimeError) qs"
    by (simp add: failures_append failures_Taken failures_Failed)
  then show ?thesis
    by (simp add: scan_ports_def split_beta)
qed

lemma scan_ports_state:
  "snd (scan_ports s l net h ps) =
     (if length ps \<le> sem_value s then s
      else case sem_loop s of None \<Rightarrow> s\<lparr>sem_loop := Some l\<rparr> | Some l' \<Rightarrow> s)"
proof (cases "length ps \<le> sem_value s")
  case True
  then show ?thesis by (simp add: scan_ports_def launch_within_permits)
next
  case False
  then have "sem_value s < length ps" by simp
  from launch_beyond_permits [OF this, of l] False show ?thesis
    by (auto simp: scan_ports_def split: option.splits)
qed

section \<open>The scanner on the laboratory host\<close>

lemmas run_defs = scan_port_def scan_port_try_def fetch_service_banner_def await_def call_def
  return_def raise_def decode_def strip_def isspace_def cont_def lab_def

lemma lab_9999:
  "scan_port Granted lab h 9999 =
     Task [Acquire, OpenConnection h 9999, Read 1024, Close, WaitClosed, Sleep 100, Release] 106
       (Ret (9999, Some [114, 101, 97, 100, 121]))"
  by (simp add: run_defs)

lemma lab_22:
  "scan_port Granted lab h 22 =
     Task [Acquire, OpenConnection h 22, Log (RefusedWarning 22 h), Release] 1 (Ret (22, None))"
  by (simp add: run_defs)

lemma lab_7:
  "scan_port Granted lab h 7 =
     Task [Acquire, OpenConnection h 7, Read 1024, Close, WaitClosed, Sleep 100, Release] 107
       (Ret (7, Some []))"
  by (simp add: run_defs)

lemma lab_80:
  "scan_port Granted lab h 80 = Task [Acquire, OpenConnection h 80, Read 1024] 2 Hang"
  by (simp add: run_defs)

lemma lab_23:
  "scan_port Granted lab h 23 =
     Task [Acquire, OpenConnection h 23, Read 1024,
           Log (UnexpectedError 23 h UnicodeDecodeError), Release] 5 (Ret (23, None))"
  by (simp add: run_defs)

lemma lab_25:
  "scan_port Granted lab h 25 =
     Task [Acquire, OpenConnection h 25, Read 1024, Close, WaitClosed, Sleep 100, Release] 5121
       (Ret (25, Some [50, 50, 48]))"
  by (simp add: run_defs)


lemma lab_1:
  "scan_port Granted lab h 1 =
     Task [Acquire, OpenConnection h 1, Log (TimeoutWarning 1 h), Release] 1000 (Ret (1, None))"
  by (simp add: run_defs)

text \<open>A scan of no more ports than the semaphore has permits: every probe takes one.\<close>

lemma scan_ports_within_permits:
  assumes "length ps \<le> sem_value s"
  shows "scan_ports s l net h ps =
     (case gather (map outcome (settle (sem_value s) net h (map (\<lambda>p. (p, Taken)) ps))) of
        Ret results \<Rightarrow> Ret (open_ports_of results)
      | Exc e \<Rightarrow> Exc e
      | Hang \<Rightarrow> Hang,
      s)"
  using assms by (simp add: scan_ports_def launch_within_permits failures_Taken)

lemmas scan_defs = scan_ports_within_permits semaphore_def MAX_CONCURRENT_SCANS_def
  open_ports_of_def


lemma lab_scan_80: "fst (scan_ports semaphore 0 lab h [22, 80, 9999]) = Hang"
  by (simp add: scan_defs lab_22 lab_80 lab_9999)

section \<open>Ports in and out of the result\<close>

lemma absent_when_None:
  assumes "outcome (scan_port Granted net h p) = Ret (p, None)"
    and "fst (scan_ports s l net h ps) = Ret m"
  shows "p \<notin> dom m"
  using assms by (auto simp: scan_ports_lookup split: if_splits)

lemma present_when_Some:
  assumes "outcome (scan_port Granted net h p) = Ret (p, Some b)"
    and "fst (scan_ports s l net h ps) = Ret m"
    and "p \<in> set ps"
  shows "m p = Some b"
  using assms by (simp add: scan_ports_lookup)

text \<open>
  Without a failed acquisition, only \<^verbatim>\<open>CancelledError\<close> can leave a scan.
\<close>

lemma gather_settle_Exc:
  assumes "gather (map outcome (settle free net h as)) = Exc e" and "failures as = []"
  shows "e = CancelledError"
  using assms
proof (induction as arbitrary: free)
  case Nil
  then show ?case by simp
next
  case (Cons pa as)
  obtain p a where pa: "pa = (p, a)" by (cases pa)
  from Cons.prems(2) pa have a: "a = Taken \<or> a = Queued" and f: "failures as = []"
    by (cases a; simp)+
  define permit where "permit = (case a of Taken \<Rightarrow> Granted
      | Queued \<Rightarrow> if 0 < free then Granted else Never | Failed e \<Rightarrow> Raised e)"
  define free' where
    "free' = (if permit = Granted \<and> outcome (scan_port permit net h p) = Hang then free - 1 else free)"
  have unfold: "settle free net h (pa # as) = scan_port permit net h p # settle free' net h as"
    by (simp add: pa permit_def free'_def Let_def)
  from a have permit: "permit = Granted \<or> permit = Never" by (auto simp: permit_def)
  show ?case
  proof (cases "outcome (scan_port permit net h p)")
    case (Ret v)
    with Cons.prems(1) have "gather (map outcome (settle free' net h as)) = Exc e"
      unfolding unfold by (simp split: outcome.splits)
    from Cons.IH [OF this f] show ?thesis .
  next
    case (Exc e')
    with Cons.prems(1) have "e' = e" unfolding unfold by simp
    with Exc permit show ?thesis by (auto simp: scan_port_Never dest: scan_port_Exc)
  next
    case Hang
    with Cons.prems(1) have "gather (map outcome (settle free' net h as)) = Exc e"
      unfolding unfold by (simp split: outcome.splits)
    from Cons.IH [OF this f] show ?thesis .
  qed
qed

lemma scan_ports_Exc:
  assumes "fst (scan_ports s l net h ps) = Exc e"
    and "length ps \<le> sem_value s \<or> sem_loop s = None \<or> sem_loop s = Some l"
  shows "e = CancelledError"
proof -
  have f: "failures (fst (launch s l ps)) = []" using assms(2) by (rule launch_no_failures)
  with assms(1) have
    "gather (map outcome (settle (sem_value s) net h (fst (launch s l ps)))) = Exc e"
    by (simp add: scan_ports_def split_beta Let_def split: outcome.splits)
  from gather_settle_Exc [OF this f] show ?thesis .
qed

text \<open>
  After a scan, a second scan of the same ports in the same event loop, or of no more
  ports than the semaphore has permits, ends as the first did.
\<close>

lemma second_scan_agrees:
  assumes "l2 = l1 \<or> length ps \<le> sem_value s"
    and "length ps \<le> sem_value s \<or> sem_loop s = None \<or> sem_loop s = Some l1"
  shows "fst (scan_ports (snd (scan_ports s l1 net h ps)) l2 net h ps)
     = fst (scan_ports s l1 net h ps)"
proof (cases "length ps \<le> sem_value s")
  case True
  then show ?thesis by (simp add: scan_ports_within_permits)
next
  case False
  with assms(1) have l: "l2 = l1" by simp
  from False have b: "sem_value s < length ps" by simp
  let ?s' = "snd (scan_ports s l1 net h ps)"
  from False assms(2) have s': "?s' = s\<lparr>sem_loop := Some l1\<rparr>"
    by (auto simp: scan_ports_state split: option.splits)
  let ?b = "s\<lparr>sem_loop := Some l1\<rparr>"
  have b': "sem_value ?b < length ps" using b by simp
  from launch_beyond_permits [OF b, of l1] launch_beyond_permits [OF b', of l1] False assms(2)
  have "fst (launch ?b l1 ps) = fst (launch s l1 ps)"
    by (auto split: option.splits)
  then have "fst (scan_ports ?b l1 net h ps) = fst (scan_ports s l1 net h ps)"
    by (simp add: scan_ports_def split_beta cong: list.case_cong)
  with s' l show ?thesis by simp
qed

section \<open>The banner is read once\<close>

lemma utf8_Cons:
  "utf8 (b0 # bs) = Some s \<Longrightarrow> \<exists>c z r. s = c # z \<and> utf8 r = Some z \<and> length r \<le> length bs"
  apply (auto split: if_splits list.splits)
  apply (rule exI, rule conjI, assumption, simp)+
  done

lemma utf8_length: "utf8 bs = Some s \<Longrightarrow> length s \<le> length bs"
proof (induction "length bs" arbitrary: bs s rule: less_induct)
  case less
  show ?case
  proof (cases bs)
    case Nil
    with less.prems show ?thesis by simp
  next
    case (Cons b0 r0)
    with less.prems obtain c z r where
      s: "s = c # z" and z: "utf8 r = Some z" and r: "length r \<le> length r0"
      using utf8_Cons [of b0 r0 s] by blast
    from r Cons have "length r < length bs" by simp
    from less.hyps [OF this z] have "length z \<le> length r" .
    with s r Cons show ?thesis by simp
  qed
qed

lemma strip_length: "length (strip s) \<le> length s"
proof -
  have "length (strip s) \<le> length (dropWhile isspace s)"
    unfolding strip_def using length_dropWhile_le [of isspace "rev (dropWhile isspace s)"] by simp
  also have "\<dots> \<le> length s" by (rule length_dropWhile_le)
  finally show ?thesis .
qed

lemma fetch_take:
  "fetch_service_banner (Returns t bs) = fetch_service_banner (Returns t (take 1024 bs))"
  by (simp add: fetch_service_banner_def)

lemma banner_length:
  assumes "outcome (fetch_service_banner rd) = Ret (Some s)"
  shows "length s \<le> 1024"
proof -
  from assms obtain t bs u where rd: "rd = Returns t bs"
    and d: "decode (take 1024 bs) = Some u" and s: "s = strip u"
    by (auto simp: outcome_fetch split: awaited.splits option.splits if_splits)
  from d have "length u \<le> length (take 1024 bs)"
    using utf8_length [of "map unat (take 1024 bs)" u] by (simp add: decode_def)
  then have "length u \<le> 1024" by simp
  with s strip_length [of u] show ?thesis by simp
qed

lemma trace_scan_port_Ret:
  assumes "outcome (scan_port_try net h p) = Ret v"
  shows "trace (scan_port Granted net h p)
     = [Acquire, OpenConnection h p, Read 1024, Close, WaitClosed, Sleep 100, Release]"
  using assms
  by (auto simp: scan_port_def trace_with_semaphore trace_except outcome_except outcome_try
      trace_try split: awaited.splits outcome.splits)

lemma trace_scan_port_not_Granted:
  "permit \<noteq> Granted \<Longrightarrow> trace (scan_port permit net h p) = []"
  by (cases permit) (simp_all add: scan_port_Raised scan_port_Never)

lemma trace_scan_port_not_Ret:
  assumes "\<forall>v. outcome (scan_port_try net h p) \<noteq> Ret v"
  shows "Sleep n \<notin> set (trace (scan_port permit net h p))"
proof (cases "permit = Granted")
  case True
  with assms show ?thesis
    by (auto simp: scan_port_def trace_with_semaphore trace_except outcome_except outcome_try
        trace_try split: awaited.splits outcome.splits if_splits)
next
  case False
  then show ?thesis by (simp add: trace_scan_port_not_Granted)
qed

section \<open>The permits of the semaphore\<close>

lemma scan_port_starts:
  "\<exists>es. trace (scan_port Granted net h p) = Acquire # OpenConnection h p # es"
  by (auto simp: scan_port_def trace_with_semaphore trace_except trace_try
      split: awaited.splits outcome.splits)

lemma scan_port_guarded: "guarded (trace (scan_port Granted net h p))"
  by (auto simp: scan_port_def trace_with_semaphore trace_except trace_try outcome_except
      butlast_append
      split: awaited.splits outcome.splits if_splits)

lemma guarded_Acquire_first:
  assumes "guarded (es @ Acquire # evs)" shows "es = []"
  using assms by (cases es) auto

lemma guarded_nonempty_prefix:
  assumes "guarded (es @ ev # evs)" and "ev \<noteq> Acquire"
  shows "\<exists>es'. es = Acquire # es'"
  using assms by (cases es) auto

lemma guarded_Release_last:
  assumes "guarded (es @ Release # evs)"
  shows "evs = [] \<and> Acquire \<in> set es \<and> Release \<notin> set es"
proof -
  from assms obtain es' where es: "es = Acquire # es'"
    using guarded_nonempty_prefix [of es Release evs] by auto
  with assms have b: "Release \<notin> set (butlast (es' @ Release # evs))" by simp
  have evs: "evs = []"
  proof (rule ccontr)
    assume "evs \<noteq> []"
    then have "butlast (es' @ Release # evs) = es' @ Release # butlast evs"
      by (simp add: butlast_append)
    with b show False by simp
  qed
  with b have "Release \<notin> set es'" by (simp add: butlast_append)
  with es evs show ?thesis by simp
qed

lemma guarded_Release_performed:
  assumes "guarded (xs @ ys)" and "Release \<in> set xs"
  shows "last xs = Release"
proof -
  from assms(2) obtain as bs where xs: "xs = as @ Release # bs"
    by (auto simp: in_set_conv_decomp)
  with assms(1) have "guarded (as @ Release # (bs @ ys))" by simp
  then have "bs @ ys = []" using guarded_Release_last by blast
  with xs show ?thesis by simp
qed

lemma connecting_holds:
  assumes "guarded (performed r @ remaining r)" and "connecting r"
  shows "holds_permit r"
proof -
  from assms(2) have ne: "performed r \<noteq> []" and l: "is_OpenConnection (last (performed r))"
    by (simp_all add: connecting_def)
  from ne assms(1) have a: "Acquire \<in> set (performed r)"
    by (cases "performed r") auto
  have "Release \<notin> set (performed r)"
  proof
    assume "Release \<in> set (performed r)"
    with assms(1) have "last (performed r) = Release" by (rule guarded_Release_performed)
    with l show False by simp
  qed
  with a show ?thesis by (simp add: holds_permit_def)
qed

lemma count_update:
  "i < length xs \<Longrightarrow>
   length (filter P (xs[i := y])) + (if P (xs ! i) then 1 else 0)
     = length (filter P xs) + (if P y then 1 else 0)"
proof (induction xs arbitrary: i)
  case Nil
  then show ?case by simp
next
  case (Cons x xs)
  then show ?case by (cases i) auto
qed

lemma count_mono:
  "(\<forall>x\<in>set xs. P x \<longrightarrow> Q x) \<Longrightarrow> length (filter P xs) \<le> length (filter Q xs)"
  by (induction xs) auto

lemma acquire_cases:
  assumes "acquire s l = (a, s')"
  shows "(a = Taken \<and> sem_value s \<noteq> 0 \<and> s' = s\<lparr>sem_value := sem_value s - 1\<rparr>)
     \<or> (a = Queued \<and> sem_value s = 0 \<and> sem_value s' = 0)
     \<or> (\<exists>e. a = Failed e \<and> sem_value s = 0 \<and> s' = s)"
  using assms
  by (auto simp: acquire_def get_loop_def split: if_splits option.splits sum.splits)

lemma balanced_start: "balanced (sem_value s) (start s running net h ps)"
  by (auto simp: balanced_def start_def permits_def scan_port_guarded holds_permit_def
      filter_empty_conv o_def)

lemma balanced_resume:
  assumes "balanced c l" and "resume l i = Some l'"
  shows "balanced c l'"
proof (cases l)
  case (Loop s running rs)
  with assms(2) have i: "i < length rs" by (auto split: if_splits)
  obtain es todo where ri: "rs ! i = Running es todo" by (cases "rs ! i")
  with assms(2) Loop i obtain ev evs where todo: "todo = ev # evs"
    by (cases todo) auto
  let ?r' = "Running (es @ [ev]) evs"
  let ?shape = "\<lambda>r. guarded (performed r @ remaining r) \<or> (performed r = [] \<and> remaining r = [])"
  from i have "rs ! i \<in> set rs" by simp
  with assms(1) Loop ri todo have g: "guarded (es @ ev # evs)"
    by (fastforce simp: balanced_def)
  from assms(1) Loop have cnt: "length (filter holds_permit rs) + sem_value s = c"
    by (simp add: balanced_def permits_def)
  from assms(1) Loop have old: "\<forall>r\<in>set rs. ?shape r" by (simp add: balanced_def)
  have all: "\<forall>r\<in>set (rs[i := y]). ?shape r" if "?shape y" for y
  proof
    fix r assume "r \<in> set (rs[i := y])"
    then have "r = y \<or> r \<in> set rs" using set_update_subset_insert [of rs i y] by auto
    with that old show "?shape r" by auto
  qed
  have upd: "length (filter holds_permit (rs[i := y])) + (if holds_permit (rs ! i) then 1 else 0)
     = length (filter holds_permit rs) + (if holds_permit y then 1 else 0)" for y
    using i by (rule count_update)
  from g have shape': "?shape ?r'" by simp
  show ?thesis
  proof (cases "ev = Acquire")
    case True
    with g have es: "es = []" using guarded_Acquire_first by blast
    obtain a s' where a: "acquire s running = (a, s')" by (cases "acquire s running")
    from acquire_cases [OF a] show ?thesis
    proof (elim disjE conjE exE)
      assume t: "a = Taken" and n: "sem_value s \<noteq> 0"
        and s': "s' = s\<lparr>sem_value := sem_value s - 1\<rparr>"
      from es True ri have h: "\<not> holds_permit (rs ! i)" "holds_permit ?r'"
        by (simp_all add: holds_permit_def)
      from True assms(2) Loop i ri todo a t have l': "l' = Loop s' running (rs[i := ?r'])"
        by simp
      from upd [of ?r'] h cnt n s'
      have "length (filter holds_permit (rs[i := ?r'])) + sem_value s' = c" by simp
      with all [OF shape'] l' show ?thesis by (simp add: balanced_def permits_def)
    next
      assume q: "a = Queued" and n: "sem_value s = 0" and s': "sem_value s' = 0"
      from True assms(2) Loop i ri todo a q have l': "l' = Loop s' running rs" by simp
      with old cnt n s' show ?thesis by (simp add: balanced_def permits_def)
    next
      fix e assume f: "a = Failed e" and s': "s' = s"
      let ?dead = "Running es []"
      from es ri have h: "\<not> holds_permit (rs ! i)" "\<not> holds_permit ?dead"
        by (simp_all add: holds_permit_def)
      from True assms(2) Loop i ri todo a f have l': "l' = Loop s' running (rs[i := ?dead])"
        by simp
      from es have "?shape ?dead" by simp
      from all [OF this] upd [of ?dead] h cnt s' l' show ?thesis
        by (simp add: balanced_def permits_def)
    qed
  next
    case nA: False
    show ?thesis
    proof (cases "ev = Release")
      case True
      with g have "Acquire \<in> set es \<and> Release \<notin> set es" using guarded_Release_last by blast
      with True ri have h: "holds_permit (rs ! i)" "\<not> holds_permit ?r'"
        by (simp_all add: holds_permit_def)
      from True assms(2) Loop i ri todo
      have l': "l' = Loop (s\<lparr>sem_value := sem_value s + 1\<rparr>) running (rs[i := ?r'])"
        by (auto split: if_splits)
      from upd [of ?r'] h cnt
      have "length (filter holds_permit (rs[i := ?r'])) + (sem_value s + 1) = c" by simp
      with all [OF shape'] l' show ?thesis by (simp add: balanced_def permits_def)
    next
      case nR: False
      with nA ri have h: "holds_permit ?r' = holds_permit (rs ! i)"
        by (auto simp: holds_permit_def)
      from nA nR assms(2) Loop i ri todo have l': "l' = Loop s running (rs[i := ?r'])"
        by (auto split: if_splits)
      from upd [of ?r'] h cnt
      have "length (filter holds_permit (rs[i := ?r'])) + sem_value s = c" by simp
      with all [OF shape'] l' show ?thesis by (simp add: balanced_def permits_def)
    qed
  qed
qed

lemma balanced_run: "balanced c l \<Longrightarrow> run l schedule = Some l' \<Longrightarrow> balanced c l'"
proof (induction schedule arbitrary: l)
  case Nil
  then show ?case by simp
next
  case (Cons i schedule)
  then show ?case by (auto split: option.splits dest: balanced_resume)
qed

lemma balanced_connecting:
  assumes "balanced c l" and "r \<in> set (probes l)" and "connecting r"
  shows "holds_permit r"
proof -
  from assms(3) have "performed r \<noteq> []" by (simp add: connecting_def)
  with assms(1,2) have "guarded (performed r @ remaining r)" by (auto simp: balanced_def)
  from this assms(3) show ?thesis by (rule connecting_holds)
qed

section \<open>The concurrency bound\<close>

text \<open>
  C1: in every state the event loop can reach from the start of a scan, whatever the port
  list, the state of the semaphore and the order in which the probes are resumed, the
  probes with an active connection attempt all hold a permit, and they are at most as many
  as the semaphore had permits at the start: at most 100 for the semaphore of the scanner.
  Every probe acquires its permit before it attempts its connection, and a probe whose
  permit is not granted attempts none.
\<close>

theorem permits_bound_connections:
  assumes "run (start s running net h ps) schedule = Some l"
  shows "length (filter connecting (probes l)) \<le> sem_value s
    \<and> (\<forall>r\<in>set (probes l). connecting r \<longrightarrow> holds_permit r)
    \<and> length (filter holds_permit (probes l)) + permits l = sem_value s
    \<and> (s = semaphore \<longrightarrow> length (filter connecting (probes l)) \<le> 100)
    \<and> (\<forall>p. \<exists>es. trace (scan_port Granted net h p) = Acquire # OpenConnection h p # es)
    \<and> (\<forall>p permit. permit \<noteq> Granted \<longrightarrow> trace (scan_port permit net h p) = [])"
proof -
  from balanced_run [OF balanced_start assms] have f: "balanced (sem_value s) l" .
  then have h: "\<forall>r\<in>set (probes l). connecting r \<longrightarrow> holds_permit r"
    by (auto intro: balanced_connecting)
  then have "length (filter connecting (probes l)) \<le> length (filter holds_permit (probes l))"
    by (rule count_mono)
  moreover from f have e: "length (filter holds_permit (probes l)) + permits l = sem_value s"
    by (simp add: balanced_def)
  ultimately have b: "length (filter connecting (probes l)) \<le> sem_value s" by simp
  then have d: "s = semaphore \<longrightarrow> length (filter connecting (probes l)) \<le> 100"
    by (auto simp: semaphore_def MAX_CONCURRENT_SCANS_def)
  from b h e d scan_port_starts trace_scan_port_not_Granted show ?thesis by blast
qed

theorem permits_bound_connections_witness:
  "run (start \<lparr>sem_value = 1, sem_loop = None\<rparr> 0 lab ''127.0.0.1'' [22, 9999]) [0, 0, 1]
     = Some (Loop \<lparr>sem_value = 0, sem_loop = Some 0\<rparr> 0
         [Running [Acquire, OpenConnection ''127.0.0.1'' 22]
            [Log (RefusedWarning 22 ''127.0.0.1''), Release],
          Running []
            [Acquire, OpenConnection ''127.0.0.1'' 9999, Read 1024, Close, WaitClosed,
             Sleep 100, Release]])
   \<and> length (filter connecting
         [Running [Acquire, OpenConnection ''127.0.0.1'' 22]
            [Log (RefusedWarning 22 ''127.0.0.1''), Release],
          Running []
            [Acquire, OpenConnection ''127.0.0.1'' 9999, Read 1024, Close, WaitClosed,
             Sleep 100, Release]]) \<le> 1
   \<and> run (start \<lparr>sem_value = 1, sem_loop = Some 7\<rparr> 0 lab ''127.0.0.1'' [22, 9999]) [0, 0, 1]
     = Some (Loop \<lparr>sem_value = 0, sem_loop = Some 7\<rparr> 0
         [Running [Acquire, OpenConnection ''127.0.0.1'' 22]
            [Log (RefusedWarning 22 ''127.0.0.1''), Release],
          Running [] []])
   \<and> run (start semaphore 0 lab ''127.0.0.1'' [22]) [0, 0]
     = Some (Loop \<lparr>sem_value = 99, sem_loop = None\<rparr> 0
         [Running [Acquire, OpenConnection ''127.0.0.1'' 22]
            [Log (RefusedWarning 22 ''127.0.0.1''), Release]])"
proof -
  have r: "run (start \<lparr>sem_value = 1, sem_loop = None\<rparr> 0 lab ''127.0.0.1'' [22, 9999]) [0, 0, 1]
     = Some (Loop \<lparr>sem_value = 0, sem_loop = Some 0\<rparr> 0
         [Running [Acquire, OpenConnection ''127.0.0.1'' 22]
            [Log (RefusedWarning 22 ''127.0.0.1''), Release],
          Running []
            [Acquire, OpenConnection ''127.0.0.1'' 9999, Read 1024, Close, WaitClosed,
             Sleep 100, Release]])"
    by (simp add: start_def lab_22 lab_9999 acquire_def get_loop_def)
  have b: "run (start \<lparr>sem_value = 1, sem_loop = Some 7\<rparr> 0 lab ''127.0.0.1'' [22, 9999]) [0, 0, 1]
     = Some (Loop \<lparr>sem_value = 0, sem_loop = Some 7\<rparr> 0
         [Running [Acquire, OpenConnection ''127.0.0.1'' 22]
            [Log (RefusedWarning 22 ''127.0.0.1''), Release],
          Running [] []])"
    by (simp add: start_def lab_22 lab_9999 acquire_def get_loop_def)
  have s: "run (start semaphore 0 lab ''127.0.0.1'' [22]) [0, 0]
     = Some (Loop \<lparr>sem_value = 99, sem_loop = None\<rparr> 0
         [Running [Acquire, OpenConnection ''127.0.0.1'' 22]
            [Log (RefusedWarning 22 ''127.0.0.1''), Release]])"
    by (simp add: start_def lab_22 semaphore_def MAX_CONCURRENT_SCANS_def acquire_def)
  from permits_bound_connections [OF r] permits_bound_connections [OF b]
    permits_bound_connections [OF s] r b s
  show ?thesis by simp
qed

section \<open>Failed probes\<close>

text \<open>
  What holds of a probe whose \<^verbatim>\<open>try\<close> block ends in an exception of the class
  \<^verbatim>\<open>Exception\<close>: it returns the port with no banner, the entry of the matching
  \<^verbatim>\<open>except\<close> clause is logged, and the port is not a key of any result of the scan.
\<close>

lemma failed_probe_recovers:
  assumes "outcome (scan_port_try net h p) = Exc e" and "is_Exception e"
  shows "outcome (scan_port Granted net h p) = Ret (p, None)"
    and "Log (if e = TimeoutError then TimeoutWarning p h
              else if is_ConnectionRefusedError e then RefusedWarning p h
              else UnexpectedError p h e) \<in> set (trace (scan_port Granted net h p))"
    and "fst (scan_ports s l net h ps) = Ret m \<Longrightarrow> p \<notin> dom m"
proof -
  from assms show o: "outcome (scan_port Granted net h p) = Ret (p, None)"
    by (simp add: scan_port_def outcome_with_semaphore outcome_except)
  from assms show "Log (if e = TimeoutError then TimeoutWarning p h
              else if is_ConnectionRefusedError e then RefusedWarning p h
              else UnexpectedError p h e) \<in> set (trace (scan_port Granted net h p))"
    by (simp add: scan_port_def trace_with_semaphore trace_except outcome_except)
  show "p \<notin> dom m" if "fst (scan_ports s l net h ps) = Ret m"
    using absent_when_None [OF o that] .
qed

text \<open>
  C2 fails on port 22 of a host with two addresses that both refuse: the library raises
  a plain \<^verbatim>\<open>OSError\<close> that lists the two refusals, the clause
  \<^verbatim>\<open>except ConnectionRefusedError\<close> does not match it, and the probe logs an unexpected
  error at level \<^verbatim>\<open>ERROR\<close> instead of the refusal. On the host with one address the
  same refusal is logged as a refusal.
\<close>

theorem refusal_on_two_addresses_is_logged_unexpected:
  "dual ''localhost'' 22
     = Raises 2 (OSError ''Multiple exceptions: [Errno 111] Connect call failed (::1, 22, 0, 0), [Errno 111] Connect call failed (127.0.0.1, 22)'')
   \<and> scan_port Granted dual ''localhost'' 22
     = Task [Acquire, OpenConnection ''localhost'' 22,
             Log (UnexpectedError 22 ''localhost''
               (OSError ''Multiple exceptions: [Errno 111] Connect call failed (::1, 22, 0, 0), [Errno 111] Connect call failed (127.0.0.1, 22)'')),
             Release] 2 (Ret (22, None))
   \<and> level_of (UnexpectedError 22 ''localhost''
         (OSError ''Multiple exceptions: [Errno 111] Connect call failed (::1, 22, 0, 0), [Errno 111] Connect call failed (127.0.0.1, 22)''))
       = ERROR
   \<and> Log (RefusedWarning 22 ''localhost'') \<notin> set (trace (scan_port Granted dual ''localhost'' 22))
   \<and> scan_port Granted lab ''127.0.0.1'' 22
     = Task [Acquire, OpenConnection ''127.0.0.1'' 22, Log (RefusedWarning 22 ''127.0.0.1''),
             Release] 1 (Ret (22, None))"
proof -
  have d: "dual ''localhost'' 22
     = Raises 2 (OSError ''Multiple exceptions: [Errno 111] Connect call failed (::1, 22, 0, 0), [Errno 111] Connect call failed (127.0.0.1, 22)'')"
    by (simp add: dual_def)
  have p: "scan_port Granted dual ''localhost'' 22
     = Task [Acquire, OpenConnection ''localhost'' 22,
             Log (UnexpectedError 22 ''localhost''
               (OSError ''Multiple exceptions: [Errno 111] Connect call failed (::1, 22, 0, 0), [Errno 111] Connect call failed (127.0.0.1, 22)'')),
             Release] 2 (Ret (22, None))"
    by (simp add: scan_port_def scan_port_try_def await_def d)
  from d p lab_22 [of "''127.0.0.1''"] show ?thesis by simp
qed

section \<open>Open ports without a banner\<close>

text \<open>
  C3, as the specification states it, fails on port 80 of the laboratory host: the
  connection succeeds, the remote side never sends anything, and the probe and the scan
  never return.
\<close>

theorem silent_open_port_counterexample:
  "wait_for (lab ''127.0.0.1'' 80) 1000 = Returns 2 \<lparr>reader = Pending, writer = Returns 1 ()\<rparr>
   \<and> outcome (scan_port Granted lab ''127.0.0.1'' 80) = Hang
   \<and> fst (scan_ports semaphore 0 lab ''127.0.0.1'' [80]) = Hang"
  by (simp add: scan_defs lab_80) (simp add: lab_def)

text \<open>
  C3, amended: when the connection succeeds, the read returns no bytes (the remote side
  closed without sending) and the teardown completes, the probe returns the port with the
  empty banner and the port is in the result with the empty banner. There is no read
  window: while the remote side stays silent and keeps the connection open, the probe does
  not return and the scan gives no result.
\<close>

theorem open_port_at_end_of_stream:
  "(\<forall>t c t' t'' u.
      wait_for (net h p) 1000 = Returns t c \<and> reader c = Returns t' [] \<and> writer c = Returns t'' u
      \<longrightarrow> outcome (scan_port Granted net h p) = Ret (p, Some [])
          \<and> (\<forall>s l m. fst (scan_ports s l net h ps) = Ret m \<and> p \<in> set ps \<longrightarrow> m p = Some []))
   \<and> (\<forall>t c. wait_for (net h p) 1000 = Returns t c \<and> reader c = Pending
      \<longrightarrow> outcome (scan_port Granted net h p) = Hang
          \<and> (\<forall>s l m. p \<in> set ps \<longrightarrow> fst (scan_ports s l net h ps) \<noteq> Ret m))"
proof (intro conjI allI impI)
  fix t c t' t'' u
  assume a: "wait_for (net h p) 1000 = Returns t c \<and> reader c = Returns t' [] \<and> writer c = Returns t'' u"
  then show o: "outcome (scan_port Granted net h p) = Ret (p, Some [])"
    by (simp add: scan_port_def outcome_with_semaphore outcome_except outcome_try outcome_fetch
        decode_def strip_def)
  fix s l m assume "fst (scan_ports s l net h ps) = Ret m \<and> p \<in> set ps"
  with o show "m p = Some []" using present_when_Some [of net h p "[]" s l ps m] by blast
next
  fix t c
  assume a: "wait_for (net h p) 1000 = Returns t c \<and> reader c = Pending"
  then show o: "outcome (scan_port Granted net h p) = Hang"
    by (simp add: scan_port_def outcome_with_semaphore outcome_except outcome_try outcome_fetch)
  fix s l m assume "p \<in> set ps"
  with o show "fst (scan_ports s l net h ps) \<noteq> Ret m"
    using scan_ports_Ret_all [of s l net h ps m p] by auto
qed

theorem open_port_at_end_of_stream_witness:
  "wait_for (lab ''127.0.0.1'' 7) 1000 = Returns 2 \<lparr>reader = Returns 4 [], writer = Returns 1 ()\<rparr>
   \<and> outcome (scan_port Granted lab ''127.0.0.1'' 7) = Ret (7, Some [])
   \<and> fst (scan_ports semaphore 0 lab ''127.0.0.1'' [22, 7]) = Ret [7 \<mapsto> []]
   \<and> [7 \<mapsto> []] (7 :: port) = Some ([] :: str)
   \<and> wait_for (lab ''127.0.0.1'' 80) 1000 = Returns 2 \<lparr>reader = Pending, writer = Returns 1 ()\<rparr>
   \<and> outcome (scan_port Granted lab ''127.0.0.1'' 80) = Hang"
proof -
  have w: "wait_for (lab ''127.0.0.1'' 7) 1000
      = Returns 2 \<lparr>reader = Returns 4 [], writer = Returns 1 ()\<rparr>"
    by (simp add: lab_def)
  have s: "fst (scan_ports semaphore 0 lab ''127.0.0.1'' [22, 7]) = Ret [7 \<mapsto> []]"
    by (simp add: scan_defs lab_22 lab_7)
  have w': "wait_for (lab ''127.0.0.1'' 80) 1000
      = Returns 2 \<lparr>reader = Pending, writer = Returns 1 ()\<rparr>"
    by (simp add: lab_def)
  have r: "reader \<lparr>reader = Returns 4 [], writer = Returns 1 ()\<rparr> = Returns 4 []"
    and wr: "writer \<lparr>reader = Returns 4 [], writer = Returns 1 ()\<rparr> = Returns 1 ()"
    and r': "reader \<lparr>reader = Pending, writer = Returns 1 ()\<rparr> = Pending"
    by simp_all
  from open_port_at_end_of_stream [of lab "''127.0.0.1''" 7 "[22, 7]"] w r wr
  have o: "outcome (scan_port Granted lab ''127.0.0.1'' 7) = Ret (7, Some [])" by blast
  from open_port_at_end_of_stream [of lab "''127.0.0.1''" 80 "[80]"] w' r'
  have o': "outcome (scan_port Granted lab ''127.0.0.1'' 80) = Hang" by blast
  have m: "[7 \<mapsto> []] (7 :: port) = Some ([] :: str)" by simp
  from w o s m w' o' show ?thesis by blast
qed

section \<open>A cancelled read\<close>





section \<open>Teardown\<close>

text \<open>
  C5 fails on port 23 of the laboratory host: the connection is established, the greeting
  is not valid UTF-8, and the probe logs the error and releases its permit without closing
  the connection or awaiting its teardown.
\<close>

theorem undecodable_banner_leaves_connection_open:
  "wait_for (lab ''127.0.0.1'' 23) 1000
     = Returns 2 \<lparr>reader = Returns 3 [255, 253, 24], writer = Returns 1 ()\<rparr>
   \<and> trace (scan_port Granted lab ''127.0.0.1'' 23)
     = [Acquire, OpenConnection ''127.0.0.1'' 23, Read 1024,
        Log (UnexpectedError 23 ''127.0.0.1'' UnicodeDecodeError), Release]
   \<and> Close \<notin> set (trace (scan_port Granted lab ''127.0.0.1'' 23))
   \<and> WaitClosed \<notin> set (trace (scan_port Granted lab ''127.0.0.1'' 23))
   \<and> Release \<in> set (trace (scan_port Granted lab ''127.0.0.1'' 23))"
  by (simp add: lab_23) (simp add: lab_def)

section \<open>The pause\<close>

text \<open>
  C6, as the specification states it, fails on port 22 of the laboratory host: the probe
  ends in a refusal and releases its permit without any pause. On port 9999, where the
  probe succeeds, the pause comes before the release of the permit, not after it.
\<close>

theorem no_pause_after_refusal_counterexample:
  "outcome (scan_port Granted lab ''127.0.0.1'' 22) = Ret (22, None)
   \<and> trace (scan_port Granted lab ''127.0.0.1'' 22)
       = [Acquire, OpenConnection ''127.0.0.1'' 22, Log (RefusedWarning 22 ''127.0.0.1''), Release]
   \<and> Sleep 100 \<notin> set (trace (scan_port Granted lab ''127.0.0.1'' 22))
   \<and> trace (scan_port Granted lab ''127.0.0.1'' 9999)
       = [Acquire, OpenConnection ''127.0.0.1'' 9999, Read 1024, Close, WaitClosed, Sleep 100,
          Release]"
  by (simp add: lab_22 lab_9999)

text \<open>
  C6, amended: a probe pauses for the fixed delay of 100 milliseconds exactly when its
  connection, its banner read and its teardown all completed without an exception; the
  pause is then the last thing it does before it releases its permit, so the permit is
  still held during the pause. A probe that ends in a timeout, a refusal or an error does
  not pause, and neither does a probe whose permit is not granted.
\<close>

theorem pause_on_success_before_release:
  "(\<forall>v. outcome (scan_port_try net h p) = Ret v \<longrightarrow>
      trace (scan_port Granted net h p)
        = [Acquire, OpenConnection h p, Read 1024, Close, WaitClosed, Sleep 100, Release])
   \<and> ((\<forall>v. outcome (scan_port_try net h p) \<noteq> Ret v) \<longrightarrow>
        (\<forall>permit n. Sleep n \<notin> set (trace (scan_port permit net h p))))
   \<and> (\<forall>permit n. permit \<noteq> Granted \<longrightarrow> Sleep n \<notin> set (trace (scan_port permit net h p)))"
  using trace_scan_port_Ret [of net h p] trace_scan_port_not_Ret [of net h p]
    trace_scan_port_not_Granted [of _ net h p]
  by (intro conjI allI impI) simp_all

theorem pause_on_success_before_release_witness:
  "outcome (scan_port_try lab ''127.0.0.1'' 9999) = Ret (9999, Some [114, 101, 97, 100, 121])
   \<and> trace (scan_port Granted lab ''127.0.0.1'' 9999)
       = [Acquire, OpenConnection ''127.0.0.1'' 9999, Read 1024, Close, WaitClosed, Sleep 100,
          Release]
   \<and> outcome (scan_port_try lab ''127.0.0.1'' 1) = Exc TimeoutError
   \<and> Sleep 100 \<notin> set (trace (scan_port Granted lab ''127.0.0.1'' 1))
   \<and> Raised RuntimeError \<noteq> Granted
   \<and> Sleep 100 \<notin> set (trace (scan_port (Raised RuntimeError) lab ''127.0.0.1'' 9999))"
proof -
  have a: "outcome (scan_port_try lab ''127.0.0.1'' 9999)
      = Ret (9999, Some [114, 101, 97, 100, 121])"
    by (simp add: outcome_try outcome_fetch lab_def decode_def strip_def isspace_def)
  have b: "outcome (scan_port_try lab ''127.0.0.1'' 1) = Exc TimeoutError"
    by (simp add: outcome_try lab_def)
  have c: "Raised RuntimeError \<noteq> Granted" by simp
  from pause_on_success_before_release [of lab "''127.0.0.1''" 9999] a
  have t: "trace (scan_port Granted lab ''127.0.0.1'' 9999)
       = [Acquire, OpenConnection ''127.0.0.1'' 9999, Read 1024, Close, WaitClosed, Sleep 100,
          Release]" by blast
  from pause_on_success_before_release [of lab "''127.0.0.1''" 1] b
  have n: "Sleep 100 \<notin> set (trace (scan_port Granted lab ''127.0.0.1'' 1))" by simp
  from pause_on_success_before_release [of lab "''127.0.0.1''" 9999] c
  have r: "Sleep 100 \<notin> set (trace (scan_port (Raised RuntimeError) lab ''127.0.0.1'' 9999))"
    by blast
  from a t b n c r show ?thesis by blast
qed

section \<open>The banner read\<close>

text \<open>
  C7, as the specification states it, fails on port 25 of the laboratory host: the
  connection takes 20 milliseconds, the greeting arrives 5000 milliseconds later, beyond
  what is left of the timeout of 1000, and the banner reader still waits for it and returns
  it. With a reader that never delivers, the banner reader never returns.
\<close>

theorem late_banner_counterexample:
  "wait_for (lab ''127.0.0.1'' 25) 1000
     = Returns 20 \<lparr>reader = Returns 5000 [50, 50, 48, 13, 10], writer = Returns 1 ()\<rparr>
   \<and> elapsed (fetch_service_banner (Returns 5000 [50, 50, 48, 13, 10])) = 5000
   \<and> \<not> (20 + 5000 \<le> (1000 :: nat))
   \<and> outcome (scan_port Granted lab ''127.0.0.1'' 25) = Ret (25, Some [50, 50, 48])
   \<and> outcome (fetch_service_banner Pending) = Hang"
  by (simp add: lab_25 elapsed_fetch outcome_fetch) (simp add: lab_def)

text \<open>
  C7, amended: the banner reader performs exactly one read, of at most 1024 bytes, and no
  loop: only the first 1024 bytes matter, and the banner has at most 1024 characters. The
  read has no timeout of its own and is not covered by the timeout of the connection
  attempt: it takes as long as the read takes, and does not return while the service sends
  nothing and keeps the connection open.
\<close>

theorem banner_read_is_one_unbounded_wait:
  "trace (fetch_service_banner rd) = [Read 1024]
   \<and> fetch_service_banner (Returns t bs) = fetch_service_banner (Returns t (take 1024 bs))
   \<and> (\<forall>s. outcome (fetch_service_banner rd) = Ret (Some s) \<longrightarrow> length s \<le> 1024)
   \<and> elapsed (fetch_service_banner (Returns t bs)) = t
   \<and> outcome (fetch_service_banner Pending) = Hang"
  using fetch_take [of t bs] banner_length [of rd]
  by (simp add: trace_fetch elapsed_fetch outcome_fetch)

theorem banner_read_is_one_unbounded_wait_witness:
  "trace (fetch_service_banner (Returns 3 [114, 101, 97, 100, 121, 10])) = [Read 1024]
   \<and> outcome (fetch_service_banner (Returns 3 [114, 101, 97, 100, 121, 10]))
       = Ret (Some [114, 101, 97, 100, 121])
   \<and> length [114, 101, 97, 100, 121 :: nat] \<le> 1024
   \<and> elapsed (fetch_service_banner (Returns 5000 [50, 50, 48, 13, 10])) = 5000"
proof -
  have o: "outcome (fetch_service_banner (Returns 3 [114, 101, 97, 100, 121, 10]))
       = Ret (Some [114, 101, 97, 100, 121])"
    by (simp add: outcome_fetch decode_def strip_def isspace_def)
  from banner_read_is_one_unbounded_wait [of "Returns 3 [114, 101, 97, 100, 121, 10]" 5000
      "[50, 50, 48, 13, 10]"] o
  show ?thesis by simp
qed

section \<open>Undecodable banners\<close>

text \<open>
  C8: when the bytes read are not valid UTF-8, the banner reader raises
  \<^verbatim>\<open>UnicodeDecodeError\<close> instead of returning an empty banner; the probe logs it with the
  exception at level \<^verbatim>\<open>ERROR\<close>, returns the port with no banner, and the port is not a
  key of the result.
\<close>

theorem decode_failure_is_an_error:
  assumes "wait_for (net h p) 1000 = Returns t c"
    and "reader c = Returns t' bs"
    and "decode (take 1024 bs) = None"
  shows "outcome (fetch_service_banner (reader c)) = Exc UnicodeDecodeError
    \<and> outcome (scan_port Granted net h p) = Ret (p, None)
    \<and> Log (UnexpectedError p h UnicodeDecodeError) \<in> set (trace (scan_port Granted net h p))
    \<and> level_of (UnexpectedError p h UnicodeDecodeError) = ERROR
    \<and> (\<forall>s l m. fst (scan_ports s l net h ps) = Ret m \<longrightarrow> p \<notin> dom m)"
proof -
  from assms have f: "outcome (fetch_service_banner (reader c)) = Exc UnicodeDecodeError"
    by (simp add: outcome_fetch)
  with assms(1) have t: "outcome (scan_port_try net h p) = Exc UnicodeDecodeError"
    by (simp add: outcome_try)
  then have o: "outcome (scan_port Granted net h p) = Ret (p, None)"
    by (simp add: scan_port_def outcome_with_semaphore outcome_except)
  from t have l: "Log (UnexpectedError p h UnicodeDecodeError) \<in> set (trace (scan_port Granted net h p))"
    by (simp add: scan_port_def trace_with_semaphore trace_except outcome_except)
  have c: "\<forall>s l m. fst (scan_ports s l net h ps) = Ret m \<longrightarrow> p \<notin> dom m"
    using absent_when_None [OF o] by blast
  have e: "level_of (UnexpectedError p h UnicodeDecodeError) = ERROR" by simp
  from f o l e c show ?thesis by blast
qed

theorem decode_failure_is_an_error_witness:
  "wait_for (lab ''127.0.0.1'' 23) 1000
     = Returns 2 \<lparr>reader = Returns 3 [255, 253, 24], writer = Returns 1 ()\<rparr>
   \<and> decode (take 1024 [255, 253, 24]) = None
   \<and> outcome (scan_port Granted lab ''127.0.0.1'' 23) = Ret (23, None)
   \<and> Log (UnexpectedError 23 ''127.0.0.1'' UnicodeDecodeError)
        \<in> set (trace (scan_port Granted lab ''127.0.0.1'' 23))
   \<and> fst (scan_ports semaphore 0 lab ''127.0.0.1'' [23, 9999]) = Ret [9999 \<mapsto> [114, 101, 97, 100, 121]]
   \<and> (23 :: port) \<notin> dom [9999 \<mapsto> [114, 101, 97, 100, 121 :: nat]]"
proof -
  have w: "wait_for (lab ''127.0.0.1'' 23) 1000
     = Returns 2 \<lparr>reader = Returns 3 [255, 253, 24], writer = Returns 1 ()\<rparr>"
    by (simp add: lab_def)
  have r: "reader \<lparr>reader = Returns 3 [255, 253, 24], writer = Returns 1 ()\<rparr>
     = Returns 3 [255, 253, 24]" by simp
  have d: "decode (take 1024 [255, 253, 24]) = None" by (simp add: decode_def)
  have s: "fst (scan_ports semaphore 0 lab ''127.0.0.1'' [23, 9999]) = Ret [9999 \<mapsto> [114, 101, 97, 100, 121]]"
    by (simp add: scan_defs lab_23 lab_9999)
  note error = decode_failure_is_an_error [of lab "''127.0.0.1''" 23 2
      "\<lparr>reader = Returns 3 [255, 253, 24], writer = Returns 1 ()\<rparr>" 3 "[255, 253, 24]"
      "[23, 9999]", OF w r d]
  from error have o: "outcome (scan_port Granted lab ''127.0.0.1'' 23) = Ret (23, None)"
    and l: "Log (UnexpectedError 23 ''127.0.0.1'' UnicodeDecodeError)
        \<in> set (trace (scan_port Granted lab ''127.0.0.1'' 23))"
    by blast+
  from error s have a: "(23 :: port) \<notin> dom [9999 \<mapsto> [114, 101, 97, 100, 121 :: nat]]"
    by blast
  from w d o l s a show ?thesis by blast
qed

section \<open>Two scans\<close>

lemma lab_filtered:
  assumes "p \<notin> {9999, 22, 7, 80, 23, 25, 8080}"
  shows "scan_port Granted lab h p =
     Task [Acquire, OpenConnection h p, Log (TimeoutWarning p h), Release] 1000 (Ret (p, None))"
  using assms by (simp add: scan_port_def scan_port_try_def await_def lab_def)

lemma many_ports_length: "length many_ports = 101"
  unfolding many_ports_def by (simp only: length_map length_upt)

lemma many_ports_range:
  assumes "q \<in> set many_ports"
  shows "1000 \<le> q \<and> q \<le> 1100"
proof -
  from assms have "q \<in> int ` {1000..<1101}"
    unfolding many_ports_def by (simp only: set_map set_upt)
  then obtain n where "q = int n" and "n \<in> {1000..<1101}" by blast
  then show ?thesis by simp
qed

lemma many_ports_filtered:
  assumes "q \<in> set many_ports"
  shows "outcome (scan_port Granted lab h q) = Ret (q, None)"
proof -
  from many_ports_range [OF assms] have "q \<notin> {9999, 22, 7, 80, 23, 25, 8080}"
    by auto
  then show ?thesis by (simp add: lab_filtered)
qed

lemma many_ports_scan:
  assumes "sem_value s = 100" and "sem_loop s = None \<or> sem_loop s = Some l"
  shows "fst (scan_ports s l lab h many_ports) = Ret Map.empty"
proof -
  have "\<forall>q\<in>set many_ports. \<exists>v. outcome (scan_port Granted lab h q) = Ret v"
    by (simp add: many_ports_filtered)
  from scan_ports_all_Ret [OF this, of s l] assms obtain m where
    m: "fst (scan_ports s l lab h many_ports) = Ret m" by auto
  have "m q = None" for q
    using scan_ports_lookup [OF m, of q] many_ports_filtered [of q h] by simp
  then have "m = Map.empty" by (intro ext) simp
  with m show ?thesis by simp
qed

text \<open>
  C9 fails on two scans of the ports 1000 to 1100 of the laboratory host in one process,
  each in an event loop of its own, as two calls of \<^verbatim>\<open>asyncio.run\<close> give: the first
  scan returns the empty dictionary and leaves the semaphore bound to its loop, and the
  second scan raises \<^verbatim>\<open>RuntimeError\<close>. In the loop of the first scan a second scan
  returns the empty dictionary again.
\<close>

theorem second_scan_in_another_loop_raises:
  "length many_ports = 101
   \<and> fst (scan_ports semaphore 0 lab ''127.0.0.1'' many_ports) = Ret Map.empty
   \<and> snd (scan_ports semaphore 0 lab ''127.0.0.1'' many_ports)
       = \<lparr>sem_value = 100, sem_loop = Some 0\<rparr>
   \<and> fst (scan_ports \<lparr>sem_value = 100, sem_loop = Some 0\<rparr> 1 lab ''127.0.0.1'' many_ports)
       = Exc RuntimeError
   \<and> fst (scan_ports \<lparr>sem_value = 100, sem_loop = Some 0\<rparr> 0 lab ''127.0.0.1'' many_ports)
       = Ret Map.empty"
proof -
  have a: "fst (scan_ports semaphore 0 lab ''127.0.0.1'' many_ports) = Ret Map.empty"
    by (rule many_ports_scan) (simp_all add: semaphore_def MAX_CONCURRENT_SCANS_def)
  have b: "snd (scan_ports semaphore 0 lab ''127.0.0.1'' many_ports)
       = \<lparr>sem_value = 100, sem_loop = Some 0\<rparr>"
    by (simp add: scan_ports_state many_ports_length semaphore_def MAX_CONCURRENT_SCANS_def)
  have c: "fst (scan_ports \<lparr>sem_value = 100, sem_loop = Some 0\<rparr> 1 lab ''127.0.0.1'' many_ports)
       = Exc RuntimeError"
    by (rule scan_ports_other_loop [where l' = 0]) (simp_all add: many_ports_length)
  have d: "fst (scan_ports \<lparr>sem_value = 100, sem_loop = Some 0\<rparr> 0 lab ''127.0.0.1'' many_ports)
       = Ret Map.empty"
    by (rule many_ports_scan) simp_all
  from many_ports_length a b c d show ?thesis by simp
qed

section \<open>A probe returns the port it was given\<close>









end
